theory Spec2Isabelle
  imports Main "HOL-Library.AList"
begin

section \<open>Browser cookie extraction (src/lib/cookies.ts)\<close>

text \<open>
  A shallow embedding of \<^verbatim>\<open>src/lib/cookies.ts\<close>: the Safari binarycookies parser, the
  Chrome value decryptor, the Chrome and Firefox store readers and the credential resolver.

  Conventions of the embedding.
  \<^item> A Node \<^verbatim>\<open>Buffer\<close> is a list of bytes; a byte is a HOL \<open>char\<close>, which is an 8-bit
    value (\<open>of_char\<close> reads it as a number).
  \<^item> A JavaScript string is represented by its UTF-8 encoding, a HOL \<open>string\<close>. Every
    string the module handles comes from decoding bytes or from a literal, so it is
    well formed; the operations used by the module (comparison, concatenation,
    \<^verbatim>\<open>startsWith\<close>, \<^verbatim>\<open>endsWith\<close>, \<^verbatim>\<open>split\<close>, \<^verbatim>\<open>trim\<close>, ASCII character classes) act the
    same on the encoding. Emptiness is the only use the module makes of a string's length.
  \<^item> \<^verbatim>\<open>string | null\<close> and \<^verbatim>\<open>string | undefined\<close> are \<open>string option\<close>.
  \<^item> JavaScript numbers are \<open>int\<close> here: every number of the module is an integer below
    \<open>2 ^ 53\<close>, where the arithmetic is exact.
  \<^item> A thrown exception is the \<open>Inl\<close> of a sum.
  \<^item> The operating system, the file system, the locale tables and the crypto library are
    observed through the record \<open>host\<close>.
\<close>

subsection \<open>Strings and buffers\<close>

type_synonym byte = char
type_synonym Buffer = "byte list"

definition inRange :: "nat \<Rightarrow> nat \<Rightarrow> byte \<Rightarrow> bool" where
  "inRange lo hi b = (lo \<le> of_char b \<and> of_char b \<le> hi)"

text \<open>A value of type \<^verbatim>\<open>string | null | undefined\<close> used as a condition.\<close>

definition truthy :: "string option \<Rightarrow> bool" where
  "truthy v = (case v of None \<Rightarrow> False | Some s \<Rightarrow> s \<noteq> [])"

definition startsWith :: "string \<Rightarrow> string \<Rightarrow> bool" where
  "startsWith s p = (take (length p) s = p)"

definition endsWith :: "string \<Rightarrow> string \<Rightarrow> bool" where
  "endsWith s p = (length p \<le> length s \<and> drop (length s - length p) s = p)"

text \<open>
  \<^verbatim>\<open>String.prototype.trim\<close> removes WhiteSpace and LineTerminator code points from both
  ends: U+0009..U+000D, U+0020, U+00A0, U+1680, U+2000..U+200A, U+2028, U+2029, U+202F,
  U+205F, U+3000 and U+FEFF, listed here by their encodings.
\<close>

definition whiteSpace :: "string list" where
  "whiteSpace =
     [[CHR 0x09], [CHR 0x0A], [CHR 0x0B], [CHR 0x0C], [CHR 0x0D], [CHR 0x20],
      [CHR 0xC2, CHR 0xA0], [CHR 0xE1, CHR 0x9A, CHR 0x80],
      [CHR 0xE2, CHR 0x80, CHR 0x80], [CHR 0xE2, CHR 0x80, CHR 0x81],
      [CHR 0xE2, CHR 0x80, CHR 0x82], [CHR 0xE2, CHR 0x80, CHR 0x83],
      [CHR 0xE2, CHR 0x80, CHR 0x84], [CHR 0xE2, CHR 0x80, CHR 0x85],
      [CHR 0xE2, CHR 0x80, CHR 0x86], [CHR 0xE2, CHR 0x80, CHR 0x87],
      [CHR 0xE2, CHR 0x80, CHR 0x88], [CHR 0xE2, CHR 0x80, CHR 0x89],
      [CHR 0xE2, CHR 0x80, CHR 0x8A], [CHR 0xE2, CHR 0x80, CHR 0xA8],
      [CHR 0xE2, CHR 0x80, CHR 0xA9], [CHR 0xE2, CHR 0x80, CHR 0xAF],
      [CHR 0xE2, CHR 0x81, CHR 0x9F], [CHR 0xE3, CHR 0x80, CHR 0x80],
      [CHR 0xEF, CHR 0xBB, CHR 0xBF]]"

text \<open>The number of bytes of the white space character a string starts (or ends) with.\<close>

definition leadingSpace :: "string \<Rightarrow> nat" where
  "leadingSpace s = (case find (startsWith s) whiteSpace of None \<Rightarrow> 0 | Some w \<Rightarrow> length w)"

definition trailingSpace :: "string \<Rightarrow> nat" where
  "trailingSpace s = (case find (endsWith s) whiteSpace of None \<Rightarrow> 0 | Some w \<Rightarrow> length w)"

function trimStart :: "string \<Rightarrow> string" where
  "trimStart s = (if leadingSpace s = 0 then s else trimStart (drop (leadingSpace s) s))"
  by pat_completeness auto
termination
proof (relation "measure length")
  show "wf (measure length)" by simp
next
  fix s :: string
  assume nonzero: "leadingSpace s \<noteq> 0"
  then obtain w where w: "find (startsWith s) whiteSpace = Some w"
    by (auto simp: leadingSpace_def split: option.splits)
  then have "startsWith s w" by (auto simp: find_Some_iff)
  then have "length (take (length w) s) = length w"
    by (simp only: startsWith_def)
  then have "length w \<le> length s" by simp
  moreover from w nonzero have "0 < length w" "leadingSpace s = length w"
    by (simp_all add: leadingSpace_def)
  ultimately show "(drop (leadingSpace s) s, s) \<in> measure length"
    by (cases w) simp_all
qed

function trimEnd :: "string \<Rightarrow> string" where
  "trimEnd s =
     (if trailingSpace s = 0 then s else trimEnd (take (length s - trailingSpace s) s))"
  by pat_completeness auto
termination
proof (relation "measure length")
  show "wf (measure length)" by simp
next
  fix s :: string
  assume nonzero: "trailingSpace s \<noteq> 0"
  then obtain w where w: "find (endsWith s) whiteSpace = Some w"
    by (auto simp: trailingSpace_def split: option.splits)
  then have "endsWith s w" by (auto simp: find_Some_iff)
  then have "length w \<le> length s" by (simp add: endsWith_def)
  moreover from w nonzero have "0 < length w" "trailingSpace s = length w"
    by (simp_all add: trailingSpace_def)
  ultimately show "(take (length s - trailingSpace s) s, s) \<in> measure length"
    by (cases w) simp_all
qed

declare trimStart.simps [simp del] trimEnd.simps [simp del]

definition trim :: "string \<Rightarrow> string" where
  "trim s = trimEnd (trimStart s)"

text \<open>\<^verbatim>\<open>s.split(sep)\<close> for a separator of one character.\<close>

fun split :: "char \<Rightarrow> string \<Rightarrow> string list" where
  "split sep [] = [[]]"
| "split sep (c # cs) =
     (if c = sep then [] # split sep cs
      else (case split sep cs of [] \<Rightarrow> [[c]] | x # xs \<Rightarrow> (c # x) # xs))"

text \<open>\<^verbatim>\<open>parts.join(sep)\<close>.\<close>

fun join :: "string \<Rightarrow> string list \<Rightarrow> string" where
  "join sep [] = []"
| "join sep [x] = x"
| "join sep (x # y # ys) = x @ sep @ join sep (y # ys)"

text \<open>
  \<^verbatim>\<open>buffer.toString('utf8')\<close>: well-formed sequences are kept, and every maximal ill-formed
  part becomes U+FFFD (\<open>EF BF BD\<close> in the encoding). The byte that ends an ill-formed part is
  read again as the start of the next sequence.
\<close>

definition replacement :: string where
  "replacement = [CHR 0xEF, CHR 0xBF, CHR 0xBD]"

fun toString_utf8 :: "Buffer \<Rightarrow> string" where
  "toString_utf8 [] = []"
| "toString_utf8 (b # bs) =
     (if inRange 0x00 0x7F b then b # toString_utf8 bs
      else if inRange 0xC2 0xDF b then
        (case bs of
           [] \<Rightarrow> replacement
         | c # cs \<Rightarrow>
             if inRange 0x80 0xBF c then b # c # toString_utf8 cs
             else replacement @ toString_utf8 bs)
      else if inRange 0xE0 0xEF b then
        (case bs of
           [] \<Rightarrow> replacement
         | c # cs \<Rightarrow>
             if inRange (if b = CHR 0xE0 then 0xA0 else 0x80)
                  (if b = CHR 0xED then 0x9F else 0xBF) c
             then (case cs of
                     [] \<Rightarrow> replacement
                   | d # ds \<Rightarrow>
                       if inRange 0x80 0xBF d then b # c # d # toString_utf8 ds
                       else replacement @ toString_utf8 cs)
             else replacement @ toString_utf8 bs)
      else if inRange 0xF0 0xF4 b then
        (case bs of
           [] \<Rightarrow> replacement
         | c # cs \<Rightarrow>
             if inRange (if b = CHR 0xF0 then 0x90 else 0x80)
                  (if b = CHR 0xF4 then 0x8F else 0xBF) c
             then (case cs of
                     [] \<Rightarrow> replacement
                   | d # ds \<Rightarrow>
                       if inRange 0x80 0xBF d
                       then (case ds of
                               [] \<Rightarrow> replacement
                             | e # es \<Rightarrow>
                                 if inRange 0x80 0xBF e then b # c # d # e # toString_utf8 es
                                 else replacement @ toString_utf8 ds)
                       else replacement @ toString_utf8 cs)
             else replacement @ toString_utf8 bs)
      else replacement @ toString_utf8 bs)"

text \<open>
  \<^verbatim>\<open>Buffer.from(text, 'hex')\<close>: two hexadecimal digits give one byte; decoding stops at the
  first pair that is not hexadecimal, and a last single digit is dropped.
\<close>

definition hexDigit :: "char \<Rightarrow> nat option" where
  "hexDigit c =
     (if inRange 0x30 0x39 c then Some (of_char c - 0x30)
      else if inRange 0x41 0x46 c then Some (of_char c - 0x41 + 10)
      else if inRange 0x61 0x66 c then Some (of_char c - 0x61 + 10)
      else None)"

fun Buffer_from_hex :: "string \<Rightarrow> Buffer" where
  "Buffer_from_hex (a # b # rest) =
     (case hexDigit a of
        None \<Rightarrow> []
      | Some x \<Rightarrow>
          (case hexDigit b of
             None \<Rightarrow> []
           | Some y \<Rightarrow> char_of (16 * x + y) # Buffer_from_hex rest))"
| "Buffer_from_hex _ = []"

text \<open>
  \<^verbatim>\<open>text.match(/[a-f0-9]{32,}/i)\<close>: the start positions are tried from the left, and at a
  position the quantifier takes as many characters of the class as there are. With the flag
  \<^verbatim>\<open>i\<close> the class holds the digits and the letters a to f in both cases.
\<close>

definition hexClass :: "char \<Rightarrow> bool" where
  "hexClass c = (inRange 0x30 0x39 c \<or> inRange 0x41 0x46 c \<or> inRange 0x61 0x66 c)"

fun hexMatch :: "string \<Rightarrow> string option" where
  "hexMatch [] = None"
| "hexMatch (c # cs) =
     (if 32 \<le> length (takeWhile hexClass (c # cs)) then Some (takeWhile hexClass (c # cs))
      else hexMatch cs)"

text \<open>\<^verbatim>\<open>text.replace(/[^\x20-\x7E]/g, '')\<close>.\<close>

definition printable :: "char \<Rightarrow> bool" where
  "printable c = inRange 0x20 0x7E c"

definition stripNonPrintable :: "string \<Rightarrow> string" where
  "stripNonPrintable s = filter printable s"


subsection \<open>Data model\<close>

record TwitterCookies =
  authToken :: "string option"
  ct0 :: "string option"
  cookieHeader :: "string option"
  source :: "string option"

record CookieExtractionResult =
  cookies :: TwitterCookies
  warnings :: "string list"

datatype CookieSource = safari | chrome | firefox

text \<open>The object every extractor and the resolver start from.\<close>

definition noCookies :: TwitterCookies where
  "noCookies = \<lparr>authToken = None, ct0 = None, cookieHeader = None, source = None\<rparr>"

text \<open>
  What the module observes of its platform. The string functions depend on Unicode and
  locale tables; the others are the results of file system calls, of the two external
  commands and of the crypto library. A thrown error is \<open>Inl\<close> of its message.
  \<^item> \<open>getSafariCookiesPath\<close>, \<open>getChromeCookiesPath\<close>, \<open>getFirefoxCookiesPath\<close>: the results
    of the path helpers of the module; the Firefox helper calls \<^verbatim>\<open>readdirSync\<close>, which can
    throw.
  \<^item> \<open>readSafariFile\<close>: \<^verbatim>\<open>mkdtempSync\<close>, \<^verbatim>\<open>copyFileSync\<close> and \<^verbatim>\<open>readFileSync\<close> of the
    Safari extractor.
  \<^item> \<open>sqliteChrome\<close>, \<open>sqliteFirefox\<close>: the copy of the database and the output of the
    \<^verbatim>\<open>sqlite3\<close> command, before trimming.
  \<^item> \<open>keychain\<close>: the output of the \<^verbatim>\<open>security find-generic-password\<close> command.
  \<^item> \<open>decipher\<close>: \<^verbatim>\<open>createDecipheriv\<close>, \<^verbatim>\<open>update\<close> and \<^verbatim>\<open>final\<close> with automatic padding.
\<close>

record host =
  toLowerCase :: "string \<Rightarrow> string"
  localeCompare :: "string \<Rightarrow> string \<Rightarrow> int"
  processEnv :: "string \<Rightarrow> string option"
  getSafariCookiesPath :: "string option"
  readSafariFile :: "string \<Rightarrow> string + Buffer"
  getChromeCookiesPath :: "string option \<Rightarrow> string"
  existsSync :: "string \<Rightarrow> bool"
  sqliteChrome :: "string \<Rightarrow> string + string"
  getFirefoxCookiesPath :: "string option \<Rightarrow> string + string option"
  sqliteFirefox :: "string \<Rightarrow> string + string"
  keychain :: "string + string"
  pbkdf2Sync :: "string \<Rightarrow> string \<Rightarrow> nat \<Rightarrow> nat \<Rightarrow> string \<Rightarrow> string + Buffer"
  decipher :: "string \<Rightarrow> Buffer \<Rightarrow> Buffer \<Rightarrow> Buffer \<Rightarrow> string + Buffer"

definition normalizeValue :: "string option \<Rightarrow> string option" where
  "normalizeValue v =
     (case v of
        None \<Rightarrow> None
      | Some s \<Rightarrow> (let trimmed = trim s in if length trimmed > 0 then Some trimmed else None))"

subsection \<open>The cookie jar\<close>

text \<open>
  The jar is a plain object used as a dictionary: its own properties in creation order.
  \<^verbatim>\<open>jar[name] = value\<close> replaces the value of an existing property where it stands and
  appends a new one; for the name \<^verbatim>\<open>__proto__\<close> it calls the inherited setter, which
  ignores a string and creates no property.
\<close>

type_synonym jar = "(string \<times> string) list"

definition jar_set :: "jar \<Rightarrow> string \<Rightarrow> string \<Rightarrow> jar" where
  "jar_set jar name v = (if name = ''__proto__'' then jar else AList.update name v jar)"

text \<open>
  \<^verbatim>\<open>Object.entries\<close> lists the properties whose name is an array index (a canonical decimal
  numeral below \<open>2 ^ 32 - 1\<close>) first, in ascending order, then the others in creation order.
\<close>

definition arrayIndex :: "string \<Rightarrow> nat option" where
  "arrayIndex k =
     (if k \<noteq> [] \<and> list_all (inRange 0x30 0x39) k \<and> (k = ''0'' \<or> hd k \<noteq> CHR ''0'')
      then (let n = foldl (\<lambda>a c. 10 * a + (of_char c - 0x30)) 0 k
            in if n < 2 ^ 32 - 1 then Some n else None)
      else None)"

definition Object_entries :: "jar \<Rightarrow> (string \<times> string) list" where
  "Object_entries jar =
     sort_key (\<lambda>(k, v). case arrayIndex k of None \<Rightarrow> 0 | Some n \<Rightarrow> n)
       (filter (\<lambda>(k, v). arrayIndex k \<noteq> None) jar)
     @ filter (\<lambda>(k, v). arrayIndex k = None) jar"

definition Object_keys :: "jar \<Rightarrow> string list" where
  "Object_keys jar = map fst (Object_entries jar)"

text \<open>
  \<^verbatim>\<open>Array.prototype.sort\<close> with a comparator is stable: an element goes before the first
  one it does not compare greater than.
\<close>

fun insertBy :: "('a \<Rightarrow> 'a \<Rightarrow> int) \<Rightarrow> 'a \<Rightarrow> 'a list \<Rightarrow> 'a list" where
  "insertBy cmp x [] = [x]"
| "insertBy cmp x (y # ys) = (if cmp x y \<le> 0 then x # y # ys else y # insertBy cmp x ys)"

definition Array_sort :: "('a \<Rightarrow> 'a \<Rightarrow> int) \<Rightarrow> 'a list \<Rightarrow> 'a list" where
  "Array_sort cmp xs = foldr (insertBy cmp) xs []"

definition serializeCookieJar :: "host \<Rightarrow> jar \<Rightarrow> string" where
  "serializeCookieJar h jar =
     (let entries =
            Array_sort (\<lambda>(a, _) (b, _). localeCompare h a b)
              (filter (\<lambda>(_, v). length v > 0) (Object_entries jar))
      in join ''; '' (map (\<lambda>(name, v). name @ ''='' @ v) entries))"

text \<open>
  The statements every reader runs for a cookie it accepts:
  \<^verbatim>\<open>jar[name] = value; if (name === 'auth_token' && !cookies.authToken) ... else if ...\<close>.
  The state of a reader is the jar and the \<^verbatim>\<open>cookies\<close> object it fills.
\<close>

type_synonym pstate = "jar \<times> TwitterCookies"

definition storeCookie :: "string \<Rightarrow> string \<Rightarrow> pstate \<Rightarrow> pstate" where
  "storeCookie name v st =
     (case st of (jar, ck) \<Rightarrow>
        (jar_set jar name v,
         if name = ''auth_token'' \<and> \<not> truthy (authToken ck) then ck\<lparr>authToken := Some v\<rparr>
         else if name = ''ct0'' \<and> \<not> truthy (ct0 ck) then ck\<lparr>ct0 := Some v\<rparr>
         else ck))"

subsection \<open>Safari: the binarycookies parser\<close>

text \<open>
  \<^verbatim>\<open>readUInt32LE\<close> and \<^verbatim>\<open>readUInt32BE\<close> throw a RangeError outside the buffer. An indexed
  read \<^verbatim>\<open>buffer[i]\<close> outside the buffer yields \<^verbatim>\<open>undefined\<close> in Node; the model records it
  as the fault \<open>IndexOutOfRange\<close>, so that a run without fault has made no access outside
  its buffer. A fault carries the state reached when it arose.
\<close>

datatype fault = RangeError | IndexOutOfRange

definition faultMessage :: "fault \<Rightarrow> string" where
  "faultMessage f =
     (case f of RangeError \<Rightarrow> ''The value of offset is out of range.''
      | IndexOutOfRange \<Rightarrow> ''undefined'')"

type_synonym presult = "(fault \<times> pstate) + pstate"

definition reading :: "fault + 'a \<Rightarrow> pstate \<Rightarrow> ('a \<Rightarrow> presult) \<Rightarrow> presult" where
  "reading r st k = (case r of Inl f \<Rightarrow> Inl (f, st) | Inr x \<Rightarrow> k x)"

definition readUInt32LE :: "Buffer \<Rightarrow> int \<Rightarrow> fault + int" where
  "readUInt32LE buffer offset =
     (if offset < 0 \<or> offset + 4 > int (length buffer) then Inl RangeError
      else Inr (of_char (buffer ! nat offset)
                + 256 * of_char (buffer ! nat (offset + 1))
                + 65536 * of_char (buffer ! nat (offset + 2))
                + 16777216 * of_char (buffer ! nat (offset + 3))))"

definition readUInt32BE :: "Buffer \<Rightarrow> int \<Rightarrow> fault + int" where
  "readUInt32BE buffer offset =
     (if offset < 0 \<or> offset + 4 > int (length buffer) then Inl RangeError
      else Inr (16777216 * of_char (buffer ! nat offset)
                + 65536 * of_char (buffer ! nat (offset + 1))
                + 256 * of_char (buffer ! nat (offset + 2))
                + of_char (buffer ! nat (offset + 3))))"

definition byteAt :: "Buffer \<Rightarrow> int \<Rightarrow> fault + byte" where
  "byteAt buffer i =
     (if 0 \<le> i \<and> i < int (length buffer) then Inr (buffer ! nat i) else Inl IndexOutOfRange)"

text \<open>\<^verbatim>\<open>buffer.subarray(start, end)\<close> for indices that are not negative; it clamps.\<close>

definition subarray :: "Buffer \<Rightarrow> int \<Rightarrow> int \<Rightarrow> Buffer" where
  "subarray buffer start fin = drop (nat start) (take (nat fin) buffer)"

definition SAFARI_COOKIE_DOMAINS :: "string list" where
  "SAFARI_COOKIE_DOMAINS = [''x.com'', ''twitter.com'']"

definition SAFARI_PAGE_SIGNATURE :: Buffer where
  "SAFARI_PAGE_SIGNATURE = [CHR 0x00, CHR 0x00, CHR 0x01, CHR 0x00]"

definition matchesSafariDomain :: "host \<Rightarrow> string option \<Rightarrow> bool" where
  "matchesSafariDomain h domain =
     (case domain of
        None \<Rightarrow> False
      | Some d \<Rightarrow>
          if d = [] then False
          else (let normalized = toLowerCase h (if startsWith d ''.'' then drop 1 d else d)
                in list_ex (\<lambda>target. normalized = target \<or> endsWith normalized (''.'' @ target))
                     SAFARI_COOKIE_DOMAINS))"

text \<open>The loop \<^verbatim>\<open>while (cursor < end && buffer[cursor] !== 0) cursor += 1\<close>.\<close>

function scanNul :: "Buffer \<Rightarrow> int \<Rightarrow> int \<Rightarrow> fault + int" where
  "scanNul buffer cursor fin =
     (if cursor < fin then
        (case byteAt buffer cursor of
           Inl f \<Rightarrow> Inl f
         | Inr b \<Rightarrow> if b \<noteq> CHR 0x00 then scanNul buffer (cursor + 1) fin else Inr cursor)
      else Inr cursor)"
  by pat_completeness auto
termination
  by (relation "measure (\<lambda>(buffer, cursor, fin). nat (fin - cursor))") auto

declare scanNul.simps [simp del]

definition readSafariCString :: "Buffer \<Rightarrow> int \<Rightarrow> int \<Rightarrow> fault + string option" where
  "readSafariCString buffer start fin =
     (if start < 0 \<or> start \<ge> fin then Inr None
      else (case scanNul buffer start fin of
              Inl f \<Rightarrow> Inl f
            | Inr cursor \<Rightarrow>
                if cursor \<ge> fin then Inr None
                else Inr (Some (toString_utf8 (subarray buffer start cursor)))))"

definition parseSafariCookieRecord :: "host \<Rightarrow> Buffer \<Rightarrow> int \<Rightarrow> pstate \<Rightarrow> presult" where
  "parseSafariCookieRecord h page offset st =
     (if offset < 0 \<or> offset + 4 > int (length page) then Inr st
      else reading (readUInt32LE page offset) st (\<lambda>recordSize.
        let recordEnd = offset + recordSize in
        if recordSize \<le> 0 \<or> recordEnd > int (length page) then Inr st
        else
          let headerStart = offset + 4;
              headerSize = 4 + 4 + 4 + 4 + 4 + 4 + 4
          in
          if headerStart + headerSize > recordEnd then Inr st
          else
            reading (readUInt32LE page (headerStart + 12)) st (\<lambda>domainOffset.
            reading (readUInt32LE page (headerStart + 16)) st (\<lambda>nameOffset.
            reading (readUInt32LE page (headerStart + 24)) st (\<lambda>valueOffset.
            reading (readSafariCString page (offset + domainOffset) recordEnd) st (\<lambda>domain.
            reading (readSafariCString page (offset + nameOffset) recordEnd) st (\<lambda>name.
            reading (readSafariCString page (offset + valueOffset) recordEnd) st (\<lambda>val.
              if \<not> truthy name \<or> \<not> truthy val \<or> \<not> matchesSafariDomain h domain then Inr st
              else
                (case normalizeValue val of
                   None \<Rightarrow> Inr st
                 | Some normalizedValue \<Rightarrow>
                     (case name of
                        None \<Rightarrow> Inr st
                      | Some n \<Rightarrow> Inr (storeCookie n normalizedValue st)))))))))))"

text \<open>
  The first loop of \<^verbatim>\<open>parseSafariCookiePage\<close>; \<open>None\<close> is its \<^verbatim>\<open>return\<close>, which leaves
  the function.
\<close>

function readOffsets :: "Buffer \<Rightarrow> int \<Rightarrow> int \<Rightarrow> int \<Rightarrow> int list \<Rightarrow> fault + int list option" where
  "readOffsets page cookieCount i cursor offsets =
     (if i < cookieCount then
        (if cursor + 4 > int (length page) then Inr None
         else (case readUInt32LE page cursor of
                 Inl f \<Rightarrow> Inl f
               | Inr v \<Rightarrow> readOffsets page cookieCount (i + 1) (cursor + 4) (offsets @ [v])))
      else Inr (Some offsets))"
  by pat_completeness auto
termination
  by (relation "measure (\<lambda>(page, cookieCount, i, cursor, offsets). nat (cookieCount - i))") auto

declare readOffsets.simps [simp del]

text \<open>The second loop: \<^verbatim>\<open>for (const offset of offsets) parseSafariCookieRecord(...)\<close>.\<close>

fun parseRecords :: "host \<Rightarrow> Buffer \<Rightarrow> int list \<Rightarrow> pstate \<Rightarrow> presult" where
  "parseRecords h page [] st = Inr st"
| "parseRecords h page (offset # rest) st =
     (case parseSafariCookieRecord h page offset st of
        Inl e \<Rightarrow> Inl e
      | Inr st' \<Rightarrow> parseRecords h page rest st')"

definition parseSafariCookiePage :: "host \<Rightarrow> Buffer \<Rightarrow> pstate \<Rightarrow> presult" where
  "parseSafariCookiePage h page st =
     (if int (length page) < 12 then Inr st
      else if subarray page 0 4 \<noteq> SAFARI_PAGE_SIGNATURE then Inr st
      else reading (readUInt32LE page 4) st (\<lambda>cookieCount.
        if cookieCount = 0 then Inr st
        else reading (readOffsets page cookieCount 0 8 []) st (\<lambda>r.
          case r of
            None \<Rightarrow> Inr st
          | Some offsets \<Rightarrow> parseRecords h page offsets st)))"

text \<open>
  The first loop of \<^verbatim>\<open>parseSafariCookies\<close>, which also leaves \<open>cursor\<close> behind the table
  of page sizes.
\<close>

function readPageSizes ::
  "Buffer \<Rightarrow> int \<Rightarrow> int \<Rightarrow> int \<Rightarrow> int list \<Rightarrow> fault + (int list \<times> int) option" where
  "readPageSizes data pageCount i cursor pageSizes =
     (if i < pageCount then
        (if cursor + 4 > int (length data) then Inr None
         else (case readUInt32BE data cursor of
                 Inl f \<Rightarrow> Inl f
               | Inr v \<Rightarrow> readPageSizes data pageCount (i + 1) (cursor + 4) (pageSizes @ [v])))
      else Inr (Some (pageSizes, cursor)))"
  by pat_completeness auto
termination
  by (relation "measure (\<lambda>(data, pageCount, i, cursor, pageSizes). nat (pageCount - i))") auto

declare readPageSizes.simps [simp del]

fun parsePages :: "host \<Rightarrow> Buffer \<Rightarrow> int list \<Rightarrow> int \<Rightarrow> pstate \<Rightarrow> presult" where
  "parsePages h data [] cursor st = Inr st"
| "parsePages h data (pageSize # rest) cursor st =
     (if cursor + pageSize > int (length data) then Inr st
      else (case parseSafariCookiePage h (subarray data cursor (cursor + pageSize)) st of
              Inl e \<Rightarrow> Inl e
            | Inr st' \<Rightarrow> parsePages h data rest (cursor + pageSize) st'))"

definition parseSafariCookies :: "host \<Rightarrow> Buffer \<Rightarrow> pstate \<Rightarrow> presult" where
  "parseSafariCookies h data st =
     (if int (length data) < 8 then Inr st
      else if toString_utf8 (subarray data 0 4) \<noteq> ''cook'' then Inr st
      else reading (readUInt32BE data 4) st (\<lambda>pageCount.
        reading (readPageSizes data pageCount 0 8 []) st (\<lambda>r.
          case r of
            None \<Rightarrow> Inr st
          | Some (pageSizes, cursor) \<Rightarrow> parsePages h data pageSizes cursor st)))"


subsection \<open>The three extractors\<close>

text \<open>
  The end of every extractor's \<^verbatim>\<open>try\<close> block: the header is the serialized jar when the
  jar has a property, and the source label is set when a token was found.
\<close>

definition sealCookies :: "host \<Rightarrow> string \<Rightarrow> pstate \<Rightarrow> TwitterCookies" where
  "sealCookies h label st =
     (case st of (jar, ck) \<Rightarrow>
        (let ck1 = (if length (Object_keys jar) > 0
                    then ck\<lparr>cookieHeader := Some (serializeCookieJar h jar)\<rparr> else ck)
         in if truthy (authToken ck1) \<or> truthy (ct0 ck1) then ck1\<lparr>source := Some label\<rparr>
            else ck1))"

text \<open>The warning pushed after the \<^verbatim>\<open>try\<close> block when neither token is set.\<close>

definition noneFound :: "TwitterCookies \<Rightarrow> string \<Rightarrow> string list" where
  "noneFound ck message =
     (if \<not> truthy (authToken ck) \<and> \<not> truthy (ct0 ck) then [message] else [])"

definition extractCookiesFromSafari :: "host \<Rightarrow> CookieExtractionResult" where
  "extractCookiesFromSafari h =
     (case getSafariCookiesPath h of
        None \<Rightarrow> \<lparr>cookies = noCookies, warnings = [''Safari cookies database not found.'']\<rparr>
      | Some cookiesPath \<Rightarrow>
          if cookiesPath = [] then
            \<lparr>cookies = noCookies, warnings = [''Safari cookies database not found.'']\<rparr>
          else
            (let (ck, ws) =
                   (case readSafariFile h cookiesPath of
                      Inl message \<Rightarrow> (noCookies, [''Failed to read Safari cookies: '' @ message])
                    | Inr data \<Rightarrow>
                        (case parseSafariCookies h data ([], noCookies) of
                           Inl (f, st) \<Rightarrow>
                             (snd st, [''Failed to read Safari cookies: '' @ faultMessage f])
                         | Inr st \<Rightarrow> (sealCookies h ''Safari'' st, [])))
             in \<lparr>cookies = ck,
                 warnings = ws @ noneFound ck
                   (''No Twitter cookies found in Safari. ''
                    @ ''Make sure you are logged into x.com in Safari.'')\<rparr>))"

subsubsection \<open>Chrome\<close>

definition decryptCookieValue :: "host \<Rightarrow> string \<Rightarrow> string option" where
  "decryptCookieValue h encryptedHex =
     (let encryptedValue = Buffer_from_hex encryptedHex in
      if length encryptedValue < 4 then None
      else
        (let version = toString_utf8 (subarray encryptedValue 0 3) in
         if version \<noteq> ''v10'' \<and> version \<noteq> ''v11'' then Some (toString_utf8 encryptedValue)
         else
           (case keychain h of
              Inl e \<Rightarrow> None
            | Inr output \<Rightarrow>
                (let keyOutput = trim output in
                 if keyOutput = [] then None
                 else
                   (case pbkdf2Sync h keyOutput ''saltysalt'' 1003 16 ''sha1'' of
                      Inl e \<Rightarrow> None
                    | Inr derivedKey \<Rightarrow>
                        (let iv = replicate 16 (CHR 0x20);
                             encryptedData = drop 3 encryptedValue
                         in case decipher h ''aes-128-cbc'' derivedKey iv encryptedData of
                              Inl e \<Rightarrow> None
                            | Inr decrypted \<Rightarrow>
                                (let decryptedStr = toString_utf8 decrypted in
                                 case hexMatch decryptedStr of
                                   Some m \<Rightarrow> Some m
                                 | None \<Rightarrow> Some (stripNonPrintable decryptedStr))))))))"

text \<open>\<^verbatim>\<open>const [a, b] = parts\<close>: a missing element is \<^verbatim>\<open>undefined\<close>.\<close>

definition element :: "string list \<Rightarrow> nat \<Rightarrow> string option" where
  "element parts i = (if i < length parts then Some (parts ! i) else None)"

definition chromeRow :: "host \<Rightarrow> string \<Rightarrow> pstate \<Rightarrow> pstate" where
  "chromeRow h line st =
     (let parts = split (CHR ''|'') line;
          name = element parts 0;
          encryptedHex = element parts 1
      in if \<not> truthy name \<or> \<not> truthy encryptedHex then st
         else
           (case (name, encryptedHex) of
              (Some n, Some x) \<Rightarrow>
                (let decryptedValue = decryptCookieValue h x in
                 if truthy decryptedValue
                 then (case decryptedValue of None \<Rightarrow> st | Some v \<Rightarrow> storeCookie n v st)
                 else st)
            | _ \<Rightarrow> st))"

fun chromeRows :: "host \<Rightarrow> string list \<Rightarrow> pstate \<Rightarrow> pstate" where
  "chromeRows h [] st = st"
| "chromeRows h (line # rest) st = chromeRows h rest (chromeRow h line st)"

definition dquote :: string where
  "dquote = [CHR 0x22]"

definition chromeLabel :: "string option \<Rightarrow> string" where
  "chromeLabel profile =
     (case profile of
        None \<Rightarrow> ''Chrome default profile''
      | Some p \<Rightarrow>
          if p = [] then ''Chrome default profile''
          else ''Chrome profile '' @ dquote @ p @ dquote)"

definition extractCookiesFromChrome :: "host \<Rightarrow> string option \<Rightarrow> CookieExtractionResult" where
  "extractCookiesFromChrome h profile =
     (let cookiesPath = getChromeCookiesPath h profile in
      if \<not> existsSync h cookiesPath then
        \<lparr>cookies = noCookies,
         warnings = [''Chrome cookies database not found at: '' @ cookiesPath]\<rparr>
      else
        (let (ck, ws) =
               (case sqliteChrome h cookiesPath of
                  Inl message \<Rightarrow> (noCookies, [''Failed to read Chrome cookies: '' @ message])
                | Inr output \<Rightarrow>
                    (let result = trim output;
                         st = (if result \<noteq> []
                               then chromeRows h (split (CHR 0x0A) result) ([], noCookies)
                               else ([], noCookies))
                     in (sealCookies h (chromeLabel profile) st, [])))
         in \<lparr>cookies = ck,
             warnings = ws @ noneFound ck
               (''No Twitter cookies found in Chrome. ''
                @ ''Make sure you are logged into x.com in Chrome.'')\<rparr>))"

subsubsection \<open>Firefox\<close>

definition firefoxRow :: "string \<Rightarrow> pstate \<Rightarrow> pstate" where
  "firefoxRow line st =
     (let parts = split (CHR ''|'') line;
          name = element parts 0;
          val = element parts 1
      in if \<not> truthy name \<or> \<not> truthy val then st
         else (case (name, val) of (Some n, Some v) \<Rightarrow> storeCookie n v st | _ \<Rightarrow> st))"

fun firefoxRows :: "string list \<Rightarrow> pstate \<Rightarrow> pstate" where
  "firefoxRows [] st = st"
| "firefoxRows (line # rest) st = firefoxRows rest (firefoxRow line st)"

definition firefoxLabel :: "string option \<Rightarrow> string" where
  "firefoxLabel profile =
     (case profile of
        None \<Rightarrow> ''Firefox default profile''
      | Some p \<Rightarrow>
          if p = [] then ''Firefox default profile''
          else ''Firefox profile '' @ dquote @ p @ dquote)"

text \<open>
  \<^verbatim>\<open>getFirefoxCookiesPath\<close> is called outside the \<^verbatim>\<open>try\<close> block, so an error of its
  \<^verbatim>\<open>readdirSync\<close> leaves the extractor: the result is \<open>Inl\<close>.
\<close>

definition extractCookiesFromFirefox ::
  "host \<Rightarrow> string option \<Rightarrow> string + CookieExtractionResult" where
  "extractCookiesFromFirefox h profile =
     (case getFirefoxCookiesPath h profile of
        Inl e \<Rightarrow> Inl e
      | Inr found \<Rightarrow>
          (case found of
             None \<Rightarrow>
               Inr \<lparr>cookies = noCookies, warnings = [''Firefox cookies database not found.'']\<rparr>
           | Some cookiesPath \<Rightarrow>
               if cookiesPath = [] then
                 Inr \<lparr>cookies = noCookies,
                      warnings = [''Firefox cookies database not found.'']\<rparr>
               else
                 (let (ck, ws) =
                        (case sqliteFirefox h cookiesPath of
                           Inl message \<Rightarrow>
                             (noCookies, [''Failed to read Firefox cookies: '' @ message])
                         | Inr output \<Rightarrow>
                             (let result = trim output;
                                  st = (if result \<noteq> []
                                        then firefoxRows (split (CHR 0x0A) result) ([], noCookies)
                                        else ([], noCookies))
                              in (sealCookies h (firefoxLabel profile) st, [])))
                  in Inr \<lparr>cookies = ck,
                          warnings = ws @ noneFound ck
                            (''No Twitter cookies found in Firefox. Make sure you are logged ''
                             @ ''into x.com in Firefox and the profile exists.'')\<rparr>)))"

subsection \<open>The resolver\<close>

datatype cookieSourceOption = Single CookieSource | Several "CookieSource list"

record options =
  opt_authToken :: "string option"
  opt_ct0 :: "string option"
  cookieSource :: "cookieSourceOption option"
  chromeProfile :: "string option"
  firefoxProfile :: "string option"

text \<open>Step 1, \<^verbatim>\<open>// 1. CLI arguments (highest priority)\<close>.\<close>

definition cliArguments :: "options \<Rightarrow> TwitterCookies \<Rightarrow> TwitterCookies" where
  "cliArguments opts ck =
     (let ck1 = (if truthy (opt_authToken opts)
                 then ck\<lparr>authToken := opt_authToken opts, source := Some ''CLI argument''\<rparr>
                 else ck)
      in if truthy (opt_ct0 opts)
         then (let ck2 = ck1\<lparr>ct0 := opt_ct0 opts\<rparr>
               in if \<not> truthy (source ck2) then ck2\<lparr>source := Some ''CLI argument''\<rparr> else ck2)
         else ck1)"

text \<open>Step 2, \<^verbatim>\<open>// 2. Environment variables\<close>: the two loops over the candidate names.\<close>

fun envAuthToken :: "host \<Rightarrow> string list \<Rightarrow> TwitterCookies \<Rightarrow> TwitterCookies" where
  "envAuthToken h [] ck = ck"
| "envAuthToken h (key # keys) ck =
     (let v = normalizeValue (processEnv h key) in
      if truthy v then ck\<lparr>authToken := v, source := Some (''env '' @ key)\<rparr>
      else envAuthToken h keys ck)"

fun envCt0 :: "host \<Rightarrow> string list \<Rightarrow> TwitterCookies \<Rightarrow> TwitterCookies" where
  "envCt0 h [] ck = ck"
| "envCt0 h (key # keys) ck =
     (let v = normalizeValue (processEnv h key) in
      if truthy v
      then (let ck1 = ck\<lparr>ct0 := v\<rparr>
            in if \<not> truthy (source ck1) then ck1\<lparr>source := Some (''env '' @ key)\<rparr> else ck1)
      else envCt0 h keys ck)"

definition environmentVariables :: "host \<Rightarrow> TwitterCookies \<Rightarrow> TwitterCookies" where
  "environmentVariables h ck =
     (let envAuthKeys = [''AUTH_TOKEN'', ''TWITTER_AUTH_TOKEN''];
          envCt0Keys = [''CT0'', ''TWITTER_CT0''];
          ck1 = (if \<not> truthy (authToken ck) then envAuthToken h envAuthKeys ck else ck)
      in if \<not> truthy (ct0 ck1) then envCt0 h envCt0Keys ck1 else ck1)"

definition composeHeader :: "TwitterCookies \<Rightarrow> TwitterCookies" where
  "composeHeader ck =
     (case (authToken ck, ct0 ck) of
        (Some a, Some c) \<Rightarrow> ck\<lparr>cookieHeader := Some (''auth_token='' @ a @ ''; ct0='' @ c)\<rparr>
      | _ \<Rightarrow> ck)"

definition sourcesToTry :: "options \<Rightarrow> CookieSource list" where
  "sourcesToTry opts =
     (case cookieSource opts of
        Some (Several sources) \<Rightarrow> sources
      | Some (Single src) \<Rightarrow> [src]
      | None \<Rightarrow> [safari, chrome, firefox])"

definition complete :: "TwitterCookies \<Rightarrow> bool" where
  "complete ck = (truthy (authToken ck) \<and> truthy (ct0 ck))"

text \<open>The statements after the cascade, \<^verbatim>\<open>// Validation\<close>.\<close>

definition validation :: "TwitterCookies \<Rightarrow> string list \<Rightarrow> CookieExtractionResult" where
  "validation ck ws =
     (let ws1 = ws @ (if \<not> truthy (authToken ck)
                      then [''Missing auth_token - provide via --auth-token, AUTH_TOKEN env ''
                            @ ''var, or login to x.com in Safari/Chrome/Firefox'']
                      else []);
          ws2 = ws1 @ (if \<not> truthy (ct0 ck)
                       then [''Missing ct0 - provide via --ct0, CT0 env var, or login to ''
                             @ ''x.com in Safari/Chrome/Firefox'']
                       else [])
      in \<lparr>cookies = (if complete ck then composeHeader ck else ck), warnings = ws2\<rparr>)"

text \<open>
  The loop \<^verbatim>\<open>for (const source of sourcesToTry)\<close>, followed by the validation when the
  loop ends without \<^verbatim>\<open>return\<close>. \<open>ck\<close> is the \<^verbatim>\<open>cookies\<close> object of steps 1 and 2 and \<open>ws\<close>
  the warnings pushed so far.
\<close>

fun cascade ::
  "host \<Rightarrow> options \<Rightarrow> CookieSource list \<Rightarrow> TwitterCookies \<Rightarrow> string list
     \<Rightarrow> string + CookieExtractionResult" where
  "cascade h opts [] ck ws = Inr (validation ck ws)"
| "cascade h opts (src # rest) ck ws =
     (if src = safari then
        (let safariResult = extractCookiesFromSafari h;
             ws1 = ws @ warnings safariResult
         in if complete (cookies safariResult)
            then Inr \<lparr>cookies = cookies safariResult, warnings = ws1\<rparr>
            else cascade h opts rest ck ws1)
      else if src = chrome then
        (let chromeResult = extractCookiesFromChrome h (chromeProfile opts);
             ws1 = ws @ warnings chromeResult
         in if complete (cookies chromeResult)
            then Inr \<lparr>cookies = cookies chromeResult, warnings = ws1\<rparr>
            else cascade h opts rest ck ws1)
      else
        (case extractCookiesFromFirefox h (firefoxProfile opts) of
           Inl e \<Rightarrow> Inl e
         | Inr firefoxResult \<Rightarrow>
             (let ws1 = ws @ warnings firefoxResult
              in if complete (cookies firefoxResult)
                 then Inr \<lparr>cookies = cookies firefoxResult, warnings = ws1\<rparr>
                 else cascade h opts rest ck ws1)))"

definition resolveCredentials :: "host \<Rightarrow> options \<Rightarrow> string + CookieExtractionResult" where
  "resolveCredentials h opts =
     (let ck = environmentVariables h (cliArguments opts noCookies) in
      if complete ck then Inr \<lparr>cookies = composeHeader ck, warnings = []\<rparr>
      else cascade h opts (sourcesToTry opts) ck [])"


subsection \<open>Notions used in the statements\<close>

text \<open>The extractor the loop of \<^verbatim>\<open>resolveCredentials\<close> calls for a source.\<close>

definition extractFrom ::
  "host \<Rightarrow> options \<Rightarrow> CookieSource \<Rightarrow> string + CookieExtractionResult" where
  "extractFrom h opts src =
     (case src of
        safari \<Rightarrow> Inr (extractCookiesFromSafari h)
      | chrome \<Rightarrow> Inr (extractCookiesFromChrome h (chromeProfile opts))
      | firefox \<Rightarrow> extractCookiesFromFirefox h (firefoxProfile opts))"

text \<open>The \<^verbatim>\<open>cookies\<close> object after steps 1 and 2, before the test for the early return.\<close>

definition preCascade :: "host \<Rightarrow> options \<Rightarrow> TwitterCookies" where
  "preCascade h opts = environmentVariables h (cliArguments opts noCookies)"

subsection \<open>Hosts and options of the concrete instances\<close>

text \<open>
  A host without any browser store, with an empty environment and an empty keychain. Its
  string functions are the ASCII ones; the instances below use ASCII names only.
\<close>

definition asciiLower :: "string \<Rightarrow> string" where
  "asciiLower s =
     map (\<lambda>c. if inRange 0x41 0x5A c then char_of (of_char c + (32::nat)) else c) s"

fun compareBytes :: "string \<Rightarrow> string \<Rightarrow> int" where
  "compareBytes [] [] = 0"
| "compareBytes [] (y # ys) = - 1"
| "compareBytes (x # xs) [] = 1"
| "compareBytes (x # xs) (y # ys) =
     (if (of_char x :: nat) < of_char y then - 1
      else if (of_char y :: nat) < of_char x then 1
      else compareBytes xs ys)"

definition bareHost :: host where
  "bareHost =
     \<lparr>toLowerCase = asciiLower, localeCompare = compareBytes, processEnv = (\<lambda>key. None),
      getSafariCookiesPath = None, readSafariFile = (\<lambda>path. Inl ''ENOENT''),
      getChromeCookiesPath = (\<lambda>profile. ''/Chrome/Default/Cookies''),
      existsSync = (\<lambda>path. False), sqliteChrome = (\<lambda>path. Inl ''ENOENT''),
      getFirefoxCookiesPath = (\<lambda>profile. Inr None), sqliteFirefox = (\<lambda>path. Inl ''ENOENT''),
      keychain = Inr [], pbkdf2Sync = (\<lambda>password salt iterations keylen digest. Inr []),
      decipher = (\<lambda>algorithm key iv data. Inl ''bad decrypt'')\<rparr>"

definition noOptions :: options where
  "noOptions =
     \<lparr>opt_authToken = None, opt_ct0 = None, cookieSource = None, chromeProfile = None,
      firefoxProfile = None\<rparr>"

text \<open>
  Firefox holds the session token only; Chrome holds both tokens, stored without
  encryption (the hexadecimal text of \<^verbatim>\<open>test_auth\<close> and \<^verbatim>\<open>test_ct0\<close>).
\<close>

definition partialFirefoxHost :: host where
  "partialFirefoxHost =
     bareHost\<lparr>getFirefoxCookiesPath := (\<lambda>profile. Inr (Some ''/ff/cookies.sqlite'')),
       sqliteFirefox := (\<lambda>path. Inr ''auth_token|ff_auth''),
       existsSync := (\<lambda>path. True),
       sqliteChrome := (\<lambda>path. Inr (''auth_token|746573745f61757468'' @ [CHR 0x0A]
                                     @ ''ct0|746573745f637430''))\<rparr>"

definition firefoxThenChrome :: options where
  "firefoxThenChrome = noOptions\<lparr>cookieSource := Some (Several [firefox, chrome])\<rparr>"

definition chromeComplete :: CookieExtractionResult where
  "chromeComplete =
     \<lparr>cookies = \<lparr>authToken = Some ''test_auth'', ct0 = Some ''test_ct0'',
                  cookieHeader = Some ''auth_token=test_auth; ct0=test_ct0'',
                  source = Some ''Chrome default profile''\<rparr>,
      warnings = []\<rparr>"

definition firefoxPartial :: CookieExtractionResult where
  "firefoxPartial =
     \<lparr>cookies = \<lparr>authToken = Some ''ff_auth'', ct0 = None,
                  cookieHeader = Some ''auth_token=ff_auth'',
                  source = Some ''Firefox default profile''\<rparr>,
      warnings = []\<rparr>"

definition firefoxOnly :: options where
  "firefoxOnly = noOptions\<lparr>cookieSource := Some (Single firefox)\<rparr>"

text \<open>
  The host above with \<^verbatim>\<open>AUTH_TOKEN\<close> set in the environment, and a host whose environment
  holds both variables.
\<close>

definition envHost :: host where
  "envHost =
     partialFirefoxHost\<lparr>processEnv :=
       (\<lambda>key. if key = ''AUTH_TOKEN'' then Some ''  env_auth  '' else None)\<rparr>"

definition envBothHost :: host where
  "envBothHost =
     bareHost\<lparr>processEnv :=
       (\<lambda>key. if key = ''AUTH_TOKEN'' then Some ''env_auth''
              else if key = ''CT0'' then Some ''env_ct0'' else None)\<rparr>"

definition cliCt0 :: options where
  "cliCt0 = noOptions\<lparr>opt_ct0 := Some ''cli_ct0''\<rparr>"

definition cliAuthFirefox :: options where
  "cliAuthFirefox =
     noOptions\<lparr>opt_authToken := Some ''cli_auth'', cookieSource := Some (Single firefox)\<rparr>"

text \<open>\<^verbatim>\<open>AUTH_TOKEN\<close> is set in the environment and Firefox holds both tokens.\<close>

definition completeFirefoxHost :: host where
  "completeFirefoxHost =
     bareHost\<lparr>processEnv := (\<lambda>key. if key = ''AUTH_TOKEN'' then Some ''env_auth'' else None),
       getFirefoxCookiesPath := (\<lambda>profile. Inr (Some ''/ff/cookies.sqlite'')),
       sqliteFirefox := (\<lambda>path. Inr (''auth_token|ff_auth'' @ [CHR 0x0A] @ ''ct0|ff_ct0''))\<rparr>"

text \<open>The decoded bytes of a value start with the version tag \<^verbatim>\<open>v10\<close> or \<^verbatim>\<open>v11\<close>.\<close>

definition versioned :: "string \<Rightarrow> bool" where
  "versioned encryptedHex =
     (take 3 (Buffer_from_hex encryptedHex) = ''v10'' \<or> take 3 (Buffer_from_hex encryptedHex) = ''v11'')"


text \<open>
  The cookie a row of the Chrome query yields: its name and its decrypted value, when both
  fields of the row are present and not empty and the value decrypts to a string that is not
  empty.
\<close>

definition chromeCookie :: "host \<Rightarrow> string \<Rightarrow> (string \<times> string) option" where
  "chromeCookie h line =
     (case (element (split (CHR ''|'') line) 0, element (split (CHR ''|'') line) 1) of
        (Some n, Some x) \<Rightarrow>
          if n = [] \<or> x = [] then None
          else (case decryptCookieValue h x of
                  None \<Rightarrow> None
                | Some v \<Rightarrow> if v = [] then None else Some (n, v))
      | _ \<Rightarrow> None)"


text \<open>
  The recovery rule in the words of the specification: the longest contiguous run of at
  least 32 lowercase hexadecimal characters if there is one, the first of them when several
  have that length, and the text without its non-printable characters otherwise.
\<close>

definition lowerHexClass :: "char \<Rightarrow> bool" where
  "lowerHexClass c = (inRange 0x30 0x39 c \<or> inRange 0x61 0x66 c)"

fun longestRun :: "(char \<Rightarrow> bool) \<Rightarrow> string \<Rightarrow> string" where
  "longestRun P [] = []"
| "longestRun P (c # cs) =
     (let here = takeWhile P (c # cs); later = longestRun P cs
      in if length here < length later then later else here)"

definition spec_recover :: "string \<Rightarrow> string" where
  "spec_recover text =
     (let run = longestRun lowerHexClass text
      in if 32 \<le> length run then run else stripNonPrintable text)"


text \<open>
  A host whose keychain returns a passphrase and whose decipher returns \<open>plaintext\<close>
  for any input; an encrypted value of 16 bytes with the tag \<^verbatim>\<open>v10\<close>; two plaintexts.
\<close>

definition decryptingHost :: "Buffer \<Rightarrow> host" where
  "decryptingHost plaintext =
     bareHost\<lparr>keychain := Inr (''c2VjcmV0'' @ [CHR 0x0A]),
       pbkdf2Sync := (\<lambda>password salt iterations keylen digest. Inr (replicate 16 (CHR 0x00))),
       decipher := (\<lambda>algorithm key iv data. Inr plaintext)\<rparr>"

definition v10Value :: string where
  "v10Value = ''76313000112233445566778899aabbccddeeff''"

definition upperHexText :: string where
  "upperHexText = ''xABCDEF0123456789ABCDEF0123456789''"

definition twoRunsText :: string where
  "twoRunsText = ''0123456789abcdef0123456789abcdef-0123456789abcdef0123456789abcdef01234567''"


definition keyMaterialText :: string where
  "keyMaterialText = [CHR 0x01, CHR 0x02] @ ''0123456789abcdef0123456789abcdef01234567''"

text \<open>The rows of a Chrome query, one name twice.\<close>

definition rowAuthA :: string where
  "rowAuthA = ''auth_token|61616161''"

definition rowCt0B :: string where
  "rowCt0B = ''ct0|62626262''"

definition rowAuthC :: string where
  "rowAuthC = ''auth_token|63636363''"

definition uniqueRowsHost :: host where
  "uniqueRowsHost =
     bareHost\<lparr>existsSync := (\<lambda>path. True),
       sqliteChrome := (\<lambda>path. Inr (rowAuthA @ [CHR 0x0A] @ rowCt0B))\<rparr>"

definition duplicateRowsHost :: host where
  "duplicateRowsHost =
     bareHost\<lparr>existsSync := (\<lambda>path. True),
       sqliteChrome :=
         (\<lambda>path. Inr (rowAuthA @ [CHR 0x0A] @ rowCt0B @ [CHR 0x0A] @ rowAuthC))\<rparr>"

text \<open>
  Safari data. Two records of the layout the parser reads (length, three unused words, the
  offsets of domain, name, path and value, then the strings): one of domain \<^verbatim>\<open>x.com\<close> whose
  name is a single space, one of domain \<^verbatim>\<open>.X.com\<close> named \<^verbatim>\<open>ct0\<close> with the value
  \<^verbatim>\<open> abc \<close>. A container as the test suite of the repository builds it, with the cookies
  \<^verbatim>\<open>auth_token=safari_auth\<close> and \<^verbatim>\<open>ct0=safari_ct0\<close> of \<^verbatim>\<open>.x.com\<close>. A buffer with a wrong tag.
\<close>

definition blankNameRecord :: Buffer where
  "blankNameRecord = [
      CHR 0x2A, CHR 0x00, CHR 0x00, CHR 0x00, CHR 0x00, CHR 0x00, CHR 0x00, CHR 0x00,
      CHR 0x00, CHR 0x00, CHR 0x00, CHR 0x00, CHR 0x00, CHR 0x00, CHR 0x00, CHR 0x00,
      CHR 0x20, CHR 0x00, CHR 0x00, CHR 0x00, CHR 0x26, CHR 0x00, CHR 0x00, CHR 0x00,
      CHR 0x00, CHR 0x00, CHR 0x00, CHR 0x00, CHR 0x28, CHR 0x00, CHR 0x00, CHR 0x00,
      CHR 0x78, CHR 0x2E, CHR 0x63, CHR 0x6F, CHR 0x6D, CHR 0x00, CHR 0x20, CHR 0x00,
      CHR 0x76, CHR 0x00]"

definition ct0Record :: Buffer where
  "ct0Record = [
      CHR 0x31, CHR 0x00, CHR 0x00, CHR 0x00, CHR 0x00, CHR 0x00, CHR 0x00, CHR 0x00,
      CHR 0x00, CHR 0x00, CHR 0x00, CHR 0x00, CHR 0x00, CHR 0x00, CHR 0x00, CHR 0x00,
      CHR 0x20, CHR 0x00, CHR 0x00, CHR 0x00, CHR 0x27, CHR 0x00, CHR 0x00, CHR 0x00,
      CHR 0x00, CHR 0x00, CHR 0x00, CHR 0x00, CHR 0x2B, CHR 0x00, CHR 0x00, CHR 0x00,
      CHR 0x2E, CHR 0x58, CHR 0x2E, CHR 0x63, CHR 0x6F, CHR 0x6D, CHR 0x00, CHR 0x63,
      CHR 0x74, CHR 0x30, CHR 0x00, CHR 0x20, CHR 0x61, CHR 0x62, CHR 0x63, CHR 0x20,
      CHR 0x00]"

definition safariTestFile :: Buffer where
  "safariTestFile = [
      CHR 0x63, CHR 0x6F, CHR 0x6F, CHR 0x6B, CHR 0x00, CHR 0x00, CHR 0x00, CHR 0x01,
      CHR 0x00, CHR 0x00, CHR 0x00, CHR 0xBC, CHR 0x00, CHR 0x00, CHR 0x01, CHR 0x00,
      CHR 0x02, CHR 0x00, CHR 0x00, CHR 0x00, CHR 0x14, CHR 0x00, CHR 0x00, CHR 0x00,
      CHR 0x6C, CHR 0x00, CHR 0x00, CHR 0x00, CHR 0x00, CHR 0x00, CHR 0x00, CHR 0x00,
      CHR 0x58, CHR 0x00, CHR 0x00, CHR 0x00, CHR 0x00, CHR 0x00, CHR 0x00, CHR 0x00,
      CHR 0x00, CHR 0x00, CHR 0x00, CHR 0x00, CHR 0x00, CHR 0x00, CHR 0x00, CHR 0x00,
      CHR 0x38, CHR 0x00, CHR 0x00, CHR 0x00, CHR 0x3F, CHR 0x00, CHR 0x00, CHR 0x00,
      CHR 0x4A, CHR 0x00, CHR 0x00, CHR 0x00, CHR 0x4C, CHR 0x00, CHR 0x00, CHR 0x00,
      CHR 0x00, CHR 0x00, CHR 0x00, CHR 0x00, CHR 0x00, CHR 0x00, CHR 0x00, CHR 0x00,
      CHR 0x00, CHR 0x00, CHR 0x00, CHR 0x00, CHR 0x00, CHR 0x00, CHR 0x00, CHR 0x00,
      CHR 0x00, CHR 0x00, CHR 0x00, CHR 0x00, CHR 0x00, CHR 0x00, CHR 0x00, CHR 0x00,
      CHR 0x2E, CHR 0x78, CHR 0x2E, CHR 0x63, CHR 0x6F, CHR 0x6D, CHR 0x00, CHR 0x61,
      CHR 0x75, CHR 0x74, CHR 0x68, CHR 0x5F, CHR 0x74, CHR 0x6F, CHR 0x6B, CHR 0x65,
      CHR 0x6E, CHR 0x00, CHR 0x2F, CHR 0x00, CHR 0x73, CHR 0x61, CHR 0x66, CHR 0x61,
      CHR 0x72, CHR 0x69, CHR 0x5F, CHR 0x61, CHR 0x75, CHR 0x74, CHR 0x68, CHR 0x00,
      CHR 0x50, CHR 0x00, CHR 0x00, CHR 0x00, CHR 0x00, CHR 0x00, CHR 0x00, CHR 0x00,
      CHR 0x00, CHR 0x00, CHR 0x00, CHR 0x00, CHR 0x00, CHR 0x00, CHR 0x00, CHR 0x00,
      CHR 0x38, CHR 0x00, CHR 0x00, CHR 0x00, CHR 0x3F, CHR 0x00, CHR 0x00, CHR 0x00,
      CHR 0x43, CHR 0x00, CHR 0x00, CHR 0x00, CHR 0x45, CHR 0x00, CHR 0x00, CHR 0x00,
      CHR 0x00, CHR 0x00, CHR 0x00, CHR 0x00, CHR 0x00, CHR 0x00, CHR 0x00, CHR 0x00,
      CHR 0x00, CHR 0x00, CHR 0x00, CHR 0x00, CHR 0x00, CHR 0x00, CHR 0x00, CHR 0x00,
      CHR 0x00, CHR 0x00, CHR 0x00, CHR 0x00, CHR 0x00, CHR 0x00, CHR 0x00, CHR 0x00,
      CHR 0x2E, CHR 0x78, CHR 0x2E, CHR 0x63, CHR 0x6F, CHR 0x6D, CHR 0x00, CHR 0x63,
      CHR 0x74, CHR 0x30, CHR 0x00, CHR 0x2F, CHR 0x00, CHR 0x73, CHR 0x61, CHR 0x66,
      CHR 0x61, CHR 0x72, CHR 0x69, CHR 0x5F, CHR 0x63, CHR 0x74, CHR 0x30, CHR 0x00]"

definition safariHost :: host where
  "safariHost =
     bareHost\<lparr>getSafariCookiesPath := Some ''/Library/Cookies/Cookies.binarycookies'',
       readSafariFile := (\<lambda>path. Inr safariTestFile)\<rparr>"

definition badMagic :: Buffer where
  "badMagic = ''book'' @ replicate 8 (CHR 0x00)"

text \<open>
  The jar an extractor has filled at the end of its \<^verbatim>\<open>try\<close> block; it is empty when the
  store was not found or not read. \<open>headerOf\<close> is the header the extractor derives from it.
\<close>

definition safariJar :: "host \<Rightarrow> jar" where
  "safariJar h =
     (case getSafariCookiesPath h of
        None \<Rightarrow> []
      | Some cookiesPath \<Rightarrow>
          if cookiesPath = [] then []
          else (case readSafariFile h cookiesPath of
                  Inl e \<Rightarrow> []
                | Inr data \<Rightarrow>
                    (case parseSafariCookies h data ([], noCookies) of
                       Inl e \<Rightarrow> []
                     | Inr st \<Rightarrow> fst st)))"

definition chromeJar :: "host \<Rightarrow> string option \<Rightarrow> jar" where
  "chromeJar h profile =
     (if existsSync h (getChromeCookiesPath h profile) then
        (case sqliteChrome h (getChromeCookiesPath h profile) of
           Inl e \<Rightarrow> []
         | Inr output \<Rightarrow>
             if trim output = [] then []
             else fst (chromeRows h (split (CHR 0x0A) (trim output)) ([], noCookies)))
      else [])"

definition firefoxJar :: "host \<Rightarrow> string option \<Rightarrow> jar" where
  "firefoxJar h profile =
     (case getFirefoxCookiesPath h profile of
        Inr (Some cookiesPath) \<Rightarrow>
          if cookiesPath = [] then []
          else (case sqliteFirefox h cookiesPath of
                  Inl e \<Rightarrow> []
                | Inr output \<Rightarrow>
                    if trim output = [] then []
                    else fst (firefoxRows (split (CHR 0x0A) (trim output)) ([], noCookies)))
      | _ \<Rightarrow> [])"

definition headerOf :: "host \<Rightarrow> jar \<Rightarrow> string option" where
  "headerOf h jar = (if jar = [] then None else Some (serializeCookieJar h jar))"


text \<open>
  An invariant of the readers: the header is not yet set, and a token is set only when the
  jar holds a cookie.
\<close>

definition sound :: "pstate \<Rightarrow> bool" where
  "sound st =
     (cookieHeader (snd st) = None
      \<and> (authToken (snd st) \<noteq> None \<or> ct0 (snd st) \<noteq> None \<longrightarrow> fst st \<noteq> []))"


text \<open>Chrome holds the session token only.\<close>

definition authOnlyChromeHost :: host where
  "authOnlyChromeHost =
     bareHost\<lparr>existsSync := (\<lambda>path. True), sqliteChrome := (\<lambda>path. Inr rowAuthA)\<rparr>"

section \<open>Properties\<close>

subsection \<open>The cascade\<close>

lemma cascade_Cons:
  "cascade h opts (src # rest) ck ws =
     (case extractFrom h opts src of
        Inl e \<Rightarrow> Inl e
      | Inr r \<Rightarrow>
          if complete (cookies r) then Inr \<lparr>cookies = cookies r, warnings = ws @ warnings r\<rparr>
          else cascade h opts rest ck (ws @ warnings r))"
  by (cases src) (simp_all add: extractFrom_def Let_def split: sum.splits)

lemma cascade_skip:
  assumes "\<forall>s \<in> set before. \<exists>r. extractFrom h opts s = Inr r \<and> \<not> complete (cookies r)"
  shows "\<exists>ws'. cascade h opts (before @ rest) ck ws = cascade h opts rest ck ws'"
  using assms
proof (induction before arbitrary: ws)
  case Nil
  then show ?case by auto
next
  case (Cons s before)
  from Cons.prems obtain r where r: "extractFrom h opts s = Inr r" "\<not> complete (cookies r)"
    by auto
  have "cascade h opts ((s # before) @ rest) ck ws =
      cascade h opts (before @ rest) ck (ws @ warnings r)"
    using r by (simp add: cascade_Cons del: cascade.simps)
  moreover from Cons.IH [of "ws @ warnings r"] Cons.prems
  obtain ws' where
    "cascade h opts (before @ rest) ck (ws @ warnings r) = cascade h opts rest ck ws'"
    by auto
  ultimately show ?case by auto
qed

lemma cascade_exhausted:
  assumes "\<forall>s \<in> set srcs. \<exists>r. extractFrom h opts s = Inr r \<and> \<not> complete (cookies r)"
  shows "\<exists>ws'. cascade h opts srcs ck ws = Inr (validation ck ws')"
proof -
  from cascade_skip [OF assms, of "[]" ck ws] show ?thesis by simp
qed

lemma envAuthToken_header [simp]: "cookieHeader (envAuthToken h keys ck) = cookieHeader ck"
  by (induction keys) (simp_all add: Let_def)

lemma envCt0_header [simp]: "cookieHeader (envCt0 h keys ck) = cookieHeader ck"
  by (induction keys) (simp_all add: Let_def)

lemma preCascade_header: "cookieHeader (preCascade h opts) = None"
  by (simp add: preCascade_def environmentVariables_def cliArguments_def noCookies_def Let_def)

lemma resolve_unfold:
  "resolveCredentials h opts =
     (if complete (preCascade h opts)
      then Inr \<lparr>cookies = composeHeader (preCascade h opts), warnings = []\<rparr>
      else cascade h opts (sourcesToTry opts) (preCascade h opts) [])"
  by (simp add: resolveCredentials_def preCascade_def Let_def)

lemma partialFirefoxHost_firefox:
  "extractFrom partialFirefoxHost firefoxThenChrome firefox = Inr firefoxPartial"
  by code_simp

lemma partialFirefoxHost_chrome:
  "extractFrom partialFirefoxHost firefoxThenChrome chrome = Inr chromeComplete"
  by code_simp

text \<open>
  C1. When steps 1 and 2 leave a token missing, the sources tried before \<open>winner\<close> each
  return a result without both tokens (one token only, or none), and \<open>winner\<close> returns a
  result \<open>r\<close> with both, then \<^verbatim>\<open>resolveCredentials\<close> returns the \<^verbatim>\<open>cookies\<close> object of \<open>r\<close>
  as it is: its tokens, its header (the serialized jar of that source) and its source
  label. Nothing of an earlier source and nothing of steps 1 and 2 is in it.
\<close>

theorem cascade_first_complete_wins:
  assumes "\<not> complete (preCascade h opts)"
    and "sourcesToTry opts = before @ winner # later"
    and "\<forall>s \<in> set before. \<exists>r. extractFrom h opts s = Inr r \<and> \<not> complete (cookies r)"
    and "extractFrom h opts winner = Inr r"
    and "complete (cookies r)"
  shows "\<exists>ws. resolveCredentials h opts = Inr \<lparr>cookies = cookies r, warnings = ws\<rparr>"
proof -
  obtain ws' where "cascade h opts (before @ winner # later) (preCascade h opts) [] =
      cascade h opts (winner # later) (preCascade h opts) ws'"
    using cascade_skip [OF assms(3)] by blast
  moreover have "cascade h opts (winner # later) (preCascade h opts) ws' =
      Inr \<lparr>cookies = cookies r, warnings = ws' @ warnings r\<rparr>"
    using assms(4,5) by (simp add: cascade_Cons del: cascade.simps)
  ultimately show ?thesis
    using assms(1,2) by (simp add: resolve_unfold)
qed

theorem cascade_first_complete_wins_witness:
  "\<not> complete (preCascade partialFirefoxHost firefoxThenChrome)
   \<and> sourcesToTry firefoxThenChrome = [firefox] @ chrome # []
   \<and> extractFrom partialFirefoxHost firefoxThenChrome firefox = Inr firefoxPartial
   \<and> \<not> complete (cookies firefoxPartial)
   \<and> extractFrom partialFirefoxHost firefoxThenChrome chrome = Inr chromeComplete
   \<and> complete (cookies chromeComplete)
   \<and> (\<exists>ws. resolveCredentials partialFirefoxHost firefoxThenChrome =
          Inr \<lparr>cookies = cookies chromeComplete, warnings = ws\<rparr>)"
proof -
  have a: "\<not> complete (preCascade partialFirefoxHost firefoxThenChrome)"
    by code_simp
  have b: "sourcesToTry firefoxThenChrome = [firefox] @ chrome # []"
    by code_simp
  have f: "\<not> complete (cookies firefoxPartial)"
    by code_simp
  then have c: "\<forall>s \<in> set [firefox]. \<exists>r. extractFrom partialFirefoxHost firefoxThenChrome s = Inr r
      \<and> \<not> complete (cookies r)"
    by (simp add: partialFirefoxHost_firefox)
  have d: "extractFrom partialFirefoxHost firefoxThenChrome chrome = Inr chromeComplete"
    by (rule partialFirefoxHost_chrome)
  have e: "complete (cookies chromeComplete)"
    by code_simp
  from cascade_first_complete_wins [OF a b c d e] a b d e f partialFirefoxHost_firefox
  show ?thesis
    by blast
qed

text \<open>
  C10. When steps 1 and 2 leave a token missing and every source tried returns a result
  without both tokens, \<^verbatim>\<open>resolveCredentials\<close> returns the \<^verbatim>\<open>cookies\<close> object of steps 1
  and 2 unchanged: its tokens are those of the arguments and the environment, no value a
  browser found is in it, and its header is null.
\<close>

theorem exhausted_cascade_keeps_pre_cascade_tokens:
  assumes "\<not> complete (preCascade h opts)"
    and "\<forall>s \<in> set (sourcesToTry opts).
           \<exists>r. extractFrom h opts s = Inr r \<and> \<not> complete (cookies r)"
  shows "\<exists>ws. resolveCredentials h opts = Inr \<lparr>cookies = preCascade h opts, warnings = ws\<rparr>
           \<and> cookieHeader (preCascade h opts) = None"
proof -
  obtain ws' where "cascade h opts (sourcesToTry opts) (preCascade h opts) [] =
      Inr (validation (preCascade h opts) ws')"
    using cascade_exhausted [OF assms(2)] by blast
  then show ?thesis
    using assms(1) by (auto simp: resolve_unfold validation_def Let_def preCascade_header)
qed

theorem exhausted_cascade_keeps_pre_cascade_tokens_witness:
  "\<not> complete (preCascade partialFirefoxHost firefoxOnly)
   \<and> sourcesToTry firefoxOnly = [firefox]
   \<and> extractFrom partialFirefoxHost firefoxOnly firefox = Inr firefoxPartial
   \<and> \<not> complete (cookies firefoxPartial)
   \<and> (\<exists>ws. resolveCredentials partialFirefoxHost firefoxOnly =
          Inr \<lparr>cookies = preCascade partialFirefoxHost firefoxOnly, warnings = ws\<rparr>
        \<and> cookieHeader (preCascade partialFirefoxHost firefoxOnly) = None)"
proof -
  have a: "\<not> complete (preCascade partialFirefoxHost firefoxOnly)"
    by code_simp
  have s: "sourcesToTry firefoxOnly = [firefox]"
    by code_simp
  have x: "extractFrom partialFirefoxHost firefoxOnly firefox = Inr firefoxPartial"
    by code_simp
  have f: "\<not> complete (cookies firefoxPartial)"
    by code_simp
  from x f have b: "\<forall>s \<in> set (sourcesToTry firefoxOnly).
      \<exists>r. extractFrom partialFirefoxHost firefoxOnly s = Inr r \<and> \<not> complete (cookies r)"
    by (simp add: s)
  from exhausted_cascade_keeps_pre_cascade_tokens [OF a b] a s x f show ?thesis
    by blast
qed

subsection \<open>Steps 1 and 2 of the resolver\<close>

lemma envAuthToken_cong:
  "processEnv h' = processEnv h \<Longrightarrow> envAuthToken h' keys ck = envAuthToken h keys ck"
  by (induction keys) (simp_all add: Let_def)

lemma envCt0_cong:
  "processEnv h' = processEnv h \<Longrightarrow> envCt0 h' keys ck = envCt0 h keys ck"
  by (induction keys) (simp_all add: Let_def)

lemma preCascade_cong:
  "processEnv h' = processEnv h \<Longrightarrow> preCascade h' opts = preCascade h opts"
  by (simp add: preCascade_def environmentVariables_def Let_def envAuthToken_cong envCt0_cong)

lemma complete_composeHeader:
  assumes "complete ck"
  shows "\<exists>a c. authToken ck = Some a \<and> ct0 ck = Some c
    \<and> composeHeader ck = ck\<lparr>cookieHeader := Some (''auth_token='' @ a @ ''; ct0='' @ c)\<rparr>"
  using assms by (auto simp: complete_def truthy_def composeHeader_def split: option.splits)

lemma envAuthToken_ct0 [simp]: "ct0 (envAuthToken h keys ck) = ct0 ck"
  by (induction keys) (simp_all add: Let_def)

lemma envCt0_authToken [simp]: "authToken (envCt0 h keys ck) = authToken ck"
  by (induction keys) (simp_all add: Let_def)

lemma envCt0_source: "truthy (source ck) \<Longrightarrow> source (envCt0 h keys ck) = source ck"
  by (induction keys) (simp_all add: Let_def)

lemma preCascade_authToken_arg:
  "truthy (opt_authToken opts) \<Longrightarrow>
     authToken (preCascade h opts) = opt_authToken opts
     \<and> source (preCascade h opts) = Some ''CLI argument''"
  by (simp add: preCascade_def environmentVariables_def cliArguments_def Let_def
      envCt0_source truthy_def)

lemma preCascade_ct0_arg:
  "truthy (opt_ct0 opts) \<Longrightarrow> ct0 (preCascade h opts) = opt_ct0 opts"
  by (simp add: preCascade_def environmentVariables_def cliArguments_def Let_def)

lemma envAuthToken_unfilled:
  "\<not> truthy (authToken ck) \<Longrightarrow> \<not> truthy (authToken (envAuthToken h keys ck))
     \<Longrightarrow> envAuthToken h keys ck = ck"
  by (induction keys) (simp_all add: Let_def split: if_splits)

lemma preCascade_ct0_only_source:
  assumes "truthy (opt_ct0 opts)" "\<not> truthy (authToken (preCascade h opts))"
  shows "source (preCascade h opts) = Some ''CLI argument''"
proof -
  let ?c = "cliArguments opts noCookies"
  let ?keys = "[''AUTH_TOKEN'', ''TWITTER_AUTH_TOKEN'']"
  from assms(2) have n: "\<not> truthy (opt_authToken opts)"
    using preCascade_authToken_arg [of opts h] by auto
  have ct: "truthy (ct0 ?c)" and src: "source ?c = Some ''CLI argument''"
    and na: "\<not> truthy (authToken ?c)"
    using assms(1) n by (simp_all add: cliArguments_def Let_def noCookies_def truthy_def)
  from assms(2) have "\<not> truthy (authToken (envAuthToken h ?keys ?c))"
    using na by (simp add: preCascade_def environmentVariables_def Let_def split: if_splits)
  then have "envAuthToken h ?keys ?c = ?c"
    using na by (rule envAuthToken_unfilled [rotated])
  then show ?thesis
    using na ct src by (simp add: preCascade_def environmentVariables_def Let_def)
qed

lemma envAuthToken_ignores:
  "(\<forall>k \<in> set keys. e k = processEnv h k)
     \<Longrightarrow> envAuthToken (h\<lparr>processEnv := e\<rparr>) keys ck = envAuthToken h keys ck"
  by (induction keys) (simp_all add: Let_def)

lemma envCt0_ignores:
  "(\<forall>k \<in> set keys. e k = processEnv h k)
     \<Longrightarrow> envCt0 (h\<lparr>processEnv := e\<rparr>) keys ck = envCt0 h keys ck"
  by (induction keys) (simp_all add: Let_def)

lemma preCascade_ignores_auth_env:
  assumes "truthy (opt_authToken opts)"
    and "\<forall>k. k \<noteq> ''AUTH_TOKEN'' \<and> k \<noteq> ''TWITTER_AUTH_TOKEN'' \<longrightarrow> e k = processEnv h k"
  shows "preCascade (h\<lparr>processEnv := e\<rparr>) opts = preCascade h opts"
proof -
  have "truthy (authToken (cliArguments opts noCookies))"
    using assms(1) by (simp add: cliArguments_def Let_def)
  moreover have "envCt0 (h\<lparr>processEnv := e\<rparr>) [''CT0'', ''TWITTER_CT0''] ck
      = envCt0 h [''CT0'', ''TWITTER_CT0''] ck" for ck
    using assms(2) by (intro envCt0_ignores) simp
  ultimately show ?thesis
    by (simp add: preCascade_def environmentVariables_def Let_def
        del: envCt0.simps envAuthToken.simps)
qed

lemma preCascade_ignores_ct0_env:
  assumes "truthy (opt_ct0 opts)"
    and "\<forall>k. k \<noteq> ''CT0'' \<and> k \<noteq> ''TWITTER_CT0'' \<longrightarrow> e k = processEnv h k"
  shows "preCascade (h\<lparr>processEnv := e\<rparr>) opts = preCascade h opts"
proof -
  let ?keys = "[''AUTH_TOKEN'', ''TWITTER_AUTH_TOKEN'']"
  have a: "envAuthToken (h\<lparr>processEnv := e\<rparr>) ?keys ck = envAuthToken h ?keys ck" for ck
    using assms(2) by (intro envAuthToken_ignores) simp
  have "truthy (ct0 (cliArguments opts noCookies))"
    using assms(1) by (simp add: cliArguments_def Let_def)
  then have "truthy (ct0 (envAuthToken h ?keys (cliArguments opts noCookies)))"
    by (simp only: envAuthToken_ct0)
  with a show ?thesis
    by (simp add: preCascade_def environmentVariables_def Let_def
        del: envCt0.simps envAuthToken.simps)
qed

lemma not_from_browser:
  assumes "complete (preCascade h opts)
       \<or> (\<forall>s \<in> set (sourcesToTry opts).
             \<exists>r. extractFrom h opts s = Inr r \<and> \<not> complete (cookies r))"
  shows "\<exists>res. resolveCredentials h opts = Inr res
      \<and> authToken (cookies res) = authToken (preCascade h opts)
      \<and> ct0 (cookies res) = ct0 (preCascade h opts)
      \<and> source (cookies res) = source (preCascade h opts)"
proof (cases "complete (preCascade h opts)")
  case True
  from complete_composeHeader [OF True] True show ?thesis
    by (auto simp: resolve_unfold)
next
  case False
  with assms have "\<forall>s \<in> set (sourcesToTry opts).
      \<exists>r. extractFrom h opts s = Inr r \<and> \<not> complete (cookies r)"
    by blast
  from cascade_exhausted [OF this, of "preCascade h opts" "[]"] False show ?thesis
    by (auto simp: resolve_unfold validation_def Let_def)
qed

text \<open>
  C4. When both tokens are set after steps 1 and 2, \<^verbatim>\<open>resolveCredentials\<close> returns the
  \<^verbatim>\<open>cookies\<close> object of these steps with the header \<^verbatim>\<open>auth_token=<authToken>; ct0=<ct0>\<close>
  and with no warning. No extractor is called: a host with the same environment and any
  other browser stores, keychain and crypto library gives the same result.
\<close>

theorem early_return_composes_header:
  assumes "complete (preCascade h opts)"
  shows "\<exists>a c. authToken (preCascade h opts) = Some a \<and> ct0 (preCascade h opts) = Some c
     \<and> resolveCredentials h opts =
         Inr \<lparr>cookies = (preCascade h opts)
                \<lparr>cookieHeader := Some (''auth_token='' @ a @ ''; ct0='' @ c)\<rparr>,
              warnings = []\<rparr>
     \<and> (\<forall>h'. processEnv h' = processEnv h
            \<longrightarrow> resolveCredentials h' opts = resolveCredentials h opts)"
proof -
  from complete_composeHeader [OF assms] obtain a c where ac:
    "authToken (preCascade h opts) = Some a" "ct0 (preCascade h opts) = Some c"
    "composeHeader (preCascade h opts) =
       (preCascade h opts)\<lparr>cookieHeader := Some (''auth_token='' @ a @ ''; ct0='' @ c)\<rparr>"
    by blast
  have "resolveCredentials h' opts = resolveCredentials h opts"
    if "processEnv h' = processEnv h" for h'
    using assms preCascade_cong [OF that, of opts] by (simp add: resolve_unfold)
  with ac assms show ?thesis by (auto simp: resolve_unfold)
qed

theorem early_return_composes_header_witness:
  "complete (preCascade envHost cliCt0)
   \<and> resolveCredentials envHost cliCt0 =
       Inr \<lparr>cookies = \<lparr>authToken = Some ''env_auth'', ct0 = Some ''cli_ct0'',
                        cookieHeader = Some ''auth_token=env_auth; ct0=cli_ct0'',
                        source = Some ''env AUTH_TOKEN''\<rparr>, warnings = []\<rparr>
   \<and> resolveCredentials (bareHost\<lparr>processEnv := processEnv envHost\<rparr>) cliCt0
       = resolveCredentials envHost cliCt0"
proof -
  have a: "complete (preCascade envHost cliCt0)"
    by code_simp
  have b: "preCascade envHost cliCt0 =
     \<lparr>authToken = Some ''env_auth'', ct0 = Some ''cli_ct0'', cookieHeader = None,
      source = Some ''env AUTH_TOKEN''\<rparr>"
    by code_simp
  have c: "processEnv (bareHost\<lparr>processEnv := processEnv envHost\<rparr>) = processEnv envHost"
    by simp
  note t = early_return_composes_header [OF a]
  from t have r: "resolveCredentials envHost cliCt0 =
       Inr \<lparr>cookies = \<lparr>authToken = Some ''env_auth'', ct0 = Some ''cli_ct0'',
                        cookieHeader = Some ''auth_token=env_auth; ct0=cli_ct0'',
                        source = Some ''env AUTH_TOKEN''\<rparr>, warnings = []\<rparr>"
    unfolding b by simp
  from t have i: "\<forall>h'. processEnv h' = processEnv envHost
      \<longrightarrow> resolveCredentials h' cliCt0 = resolveCredentials envHost cliCt0"
    by (elim exE conjE)
  from a r i [rule_format, OF c] show ?thesis
    by (intro conjI)
qed

text \<open>
  C5, as stated, fails: the session token is an explicit argument and \<^verbatim>\<open>AUTH_TOKEN\<close> is set
  to another value, the CSRF token is given nowhere, and Firefox holds both tokens. The
  returned token and label are those of Firefox.
\<close>

theorem explicit_argument_replaced_by_browser:
  "opt_authToken cliAuthFirefox = Some ''cli_auth''
   \<and> processEnv completeFirefoxHost ''AUTH_TOKEN'' = Some ''env_auth''
   \<and> resolveCredentials completeFirefoxHost cliAuthFirefox =
       Inr \<lparr>cookies = \<lparr>authToken = Some ''ff_auth'', ct0 = Some ''ff_ct0'',
                        cookieHeader = Some ''auth_token=ff_auth; ct0=ff_ct0'',
                        source = Some ''Firefox default profile''\<rparr>, warnings = []\<rparr>"
  by code_simp

text \<open>
  A second instance: the CSRF token is an explicit argument, \<^verbatim>\<open>CT0\<close> and \<^verbatim>\<open>AUTH_TOKEN\<close> are
  set in the environment. The returned CSRF token is the argument, and the label is the one
  of the environment variable, which the first loop of step 2 writes without a test.
\<close>

lemma ct0_argument_label_overwritten:
  "resolveCredentials envBothHost cliCt0 =
     Inr \<lparr>cookies = \<lparr>authToken = Some ''env_auth'', ct0 = Some ''cli_ct0'',
                      cookieHeader = Some ''auth_token=env_auth; ct0=cli_ct0'',
                      source = Some ''env AUTH_TOKEN''\<rparr>, warnings = []\<rparr>"
  by code_simp

text \<open>
  C5, amended. Assume the result does not come from a browser: either steps 1 and 2 set
  both tokens, or no source tried returns both. Then
  \<^item> an explicit session token is the returned session token and the label is
    \<^verbatim>\<open>CLI argument\<close>, and the variables \<^verbatim>\<open>AUTH_TOKEN\<close> and \<^verbatim>\<open>TWITTER_AUTH_TOKEN\<close> have no
    influence on steps 1 and 2;
  \<^item> an explicit CSRF token is the returned CSRF token, the label is \<^verbatim>\<open>CLI argument\<close> when
    no session token is returned, and the variables \<^verbatim>\<open>CT0\<close> and \<^verbatim>\<open>TWITTER_CT0\<close> have no
    influence on steps 1 and 2.
\<close>

theorem explicit_arguments_before_environment:
  assumes "complete (preCascade h opts)
       \<or> (\<forall>s \<in> set (sourcesToTry opts).
             \<exists>r. extractFrom h opts s = Inr r \<and> \<not> complete (cookies r))"
  shows "\<exists>res. resolveCredentials h opts = Inr res
      \<and> (truthy (opt_authToken opts) \<longrightarrow>
            authToken (cookies res) = opt_authToken opts
          \<and> source (cookies res) = Some ''CLI argument''
          \<and> (\<forall>e. (\<forall>k. k \<noteq> ''AUTH_TOKEN'' \<and> k \<noteq> ''TWITTER_AUTH_TOKEN''
                       \<longrightarrow> e k = processEnv h k)
                \<longrightarrow> preCascade (h\<lparr>processEnv := e\<rparr>) opts = preCascade h opts))
      \<and> (truthy (opt_ct0 opts) \<longrightarrow>
            ct0 (cookies res) = opt_ct0 opts
          \<and> (\<not> truthy (authToken (cookies res))
                \<longrightarrow> source (cookies res) = Some ''CLI argument'')
          \<and> (\<forall>e. (\<forall>k. k \<noteq> ''CT0'' \<and> k \<noteq> ''TWITTER_CT0'' \<longrightarrow> e k = processEnv h k)
                \<longrightarrow> preCascade (h\<lparr>processEnv := e\<rparr>) opts = preCascade h opts))"
proof -
  from not_from_browser [OF assms] obtain res where res:
    "resolveCredentials h opts = Inr res"
    "authToken (cookies res) = authToken (preCascade h opts)"
    "ct0 (cookies res) = ct0 (preCascade h opts)"
    "source (cookies res) = source (preCascade h opts)"
    by blast
  have "authToken (cookies res) = opt_authToken opts
      \<and> source (cookies res) = Some ''CLI argument''"
    if "truthy (opt_authToken opts)"
    using preCascade_authToken_arg [OF that, of h] res by simp
  moreover have "ct0 (cookies res) = opt_ct0 opts" if "truthy (opt_ct0 opts)"
    using preCascade_ct0_arg [OF that, of h] res by simp
  moreover have "source (cookies res) = Some ''CLI argument''"
    if "truthy (opt_ct0 opts)" "\<not> truthy (authToken (cookies res))"
    using preCascade_ct0_only_source [of opts h] that res by simp
  ultimately show ?thesis
    using res(1) preCascade_ignores_auth_env [of opts _ h]
      preCascade_ignores_ct0_env [of opts _ h]
    by blast
qed

theorem explicit_arguments_before_environment_witness:
  "sourcesToTry cliAuthFirefox = [firefox]
   \<and> extractFrom envHost cliAuthFirefox firefox = Inr firefoxPartial
   \<and> \<not> complete (cookies firefoxPartial)
   \<and> truthy (opt_authToken cliAuthFirefox)
   \<and> processEnv envHost ''AUTH_TOKEN'' = Some ''  env_auth  ''
   \<and> (\<exists>res. resolveCredentials envHost cliAuthFirefox = Inr res
         \<and> authToken (cookies res) = Some ''cli_auth''
         \<and> source (cookies res) = Some ''CLI argument'')"
proof -
  have s: "sourcesToTry cliAuthFirefox = [firefox]"
    by code_simp
  have x: "extractFrom envHost cliAuthFirefox firefox = Inr firefoxPartial"
    by code_simp
  have f: "\<not> complete (cookies firefoxPartial)"
    by code_simp
  have t: "truthy (opt_authToken cliAuthFirefox)"
    by code_simp
  have a: "opt_authToken cliAuthFirefox = Some ''cli_auth''"
    by code_simp
  have e: "processEnv envHost ''AUTH_TOKEN'' = Some ''  env_auth  ''"
    by code_simp
  from x f have "complete (preCascade envHost cliAuthFirefox)
       \<or> (\<forall>s \<in> set (sourcesToTry cliAuthFirefox).
             \<exists>r. extractFrom envHost cliAuthFirefox s = Inr r \<and> \<not> complete (cookies r))"
    by (simp add: s)
  from explicit_arguments_before_environment [OF this] t
  have "\<exists>res. resolveCredentials envHost cliAuthFirefox = Inr res
         \<and> authToken (cookies res) = opt_authToken cliAuthFirefox
         \<and> source (cookies res) = Some ''CLI argument''"
    by blast
  with s x f t e show ?thesis
    by (simp add: a)
qed

subsection \<open>The Chrome value decryptor\<close>

lemma version_check:
  assumes "versioned x"
  shows "\<not> (toString_utf8 (subarray (Buffer_from_hex x) 0 3) \<noteq> ''v10''
         \<and> toString_utf8 (subarray (Buffer_from_hex x) 0 3) \<noteq> ''v11'')"
proof -
  have a: "toString_utf8 ''v10'' = ''v10''" by code_simp
  have b: "toString_utf8 ''v11'' = ''v11''" by code_simp
  from assms a b show ?thesis
    by (auto simp: versioned_def subarray_def)
qed


text \<open>
  C8. For a value whose decoded bytes start with \<^verbatim>\<open>v10\<close> or \<^verbatim>\<open>v11\<close>, the decryptor returns
  null when the keychain command throws, when its output is empty after trimming, when the
  key derivation throws or when the decipher throws. The decryptor has no other outcome
  than a string or null: its whole body is inside \<^verbatim>\<open>try\<close>, and \<^verbatim>\<open>catch\<close> returns null.
\<close>

theorem decryptCookieValue_failure_is_null:
  assumes "versioned encryptedHex"
    and "(\<exists>e. keychain h = Inl e)
       \<or> (\<exists>output. keychain h = Inr output \<and> trim output = [])
       \<or> (\<exists>output e. keychain h = Inr output
             \<and> pbkdf2Sync h (trim output) ''saltysalt'' 1003 16 ''sha1'' = Inl e)
       \<or> (\<exists>output derivedKey e. keychain h = Inr output
             \<and> pbkdf2Sync h (trim output) ''saltysalt'' 1003 16 ''sha1'' = Inr derivedKey
             \<and> decipher h ''aes-128-cbc'' derivedKey (replicate 16 (CHR 0x20))
                  (drop 3 (Buffer_from_hex encryptedHex)) = Inl e)"
  shows "decryptCookieValue h encryptedHex = None"
  using assms(2) version_check [OF assms(1)]
  by (auto simp: decryptCookieValue_def Let_def split: sum.splits)


theorem decryptCookieValue_failure_is_null_witness:
  "versioned v10Value
   \<and> keychain bareHost = Inr [] \<and> trim [] = []
   \<and> decryptCookieValue bareHost v10Value = None"
proof -
  have a: "versioned v10Value"
    by code_simp
  have b: "keychain bareHost = Inr []"
    by code_simp
  have c: "trim [] = []"
    by code_simp
  from b c have "(\<exists>e. keychain bareHost = Inl e)
       \<or> (\<exists>output. keychain bareHost = Inr output \<and> trim output = [])
       \<or> (\<exists>output e. keychain bareHost = Inr output
             \<and> pbkdf2Sync bareHost (trim output) ''saltysalt'' 1003 16 ''sha1'' = Inl e)
       \<or> (\<exists>output derivedKey e. keychain bareHost = Inr output
             \<and> pbkdf2Sync bareHost (trim output) ''saltysalt'' 1003 16 ''sha1'' = Inr derivedKey
             \<and> decipher bareHost ''aes-128-cbc'' derivedKey (replicate 16 (CHR 0x20))
                  (drop 3 (Buffer_from_hex v10Value)) = Inl e)"
    by blast
  from decryptCookieValue_failure_is_null [OF a this] a b c show ?thesis
    by (intro conjI)
qed

lemma hexMatch_Some:
  "hexMatch s = Some r \<Longrightarrow>
     \<exists>pre post. s = pre @ r @ post \<and> 32 \<le> length r \<and> list_all hexClass r
       \<and> (post = [] \<or> \<not> hexClass (hd post)) \<and> (pre = [] \<or> \<not> hexClass (last pre))"
proof (induction s)
  case Nil
  then show ?case by simp
next
  case (Cons c cs)
  show ?case
  proof (cases "32 \<le> length (takeWhile hexClass (c # cs))")
    case True
    with Cons.prems have r: "r = takeWhile hexClass (c # cs)" by simp
    have "c # cs = [] @ r @ dropWhile hexClass (c # cs)"
      unfolding r by simp
    moreover have "dropWhile hexClass (c # cs) = [] \<or> \<not> hexClass (hd (dropWhile hexClass (c # cs)))"
      using hd_dropWhile [of hexClass "c # cs"] by blast
    moreover have "list_all hexClass r"
      unfolding r by (simp add: list_all_iff del: takeWhile.simps) (meson set_takeWhileD)
    ultimately show ?thesis using True r by blast
  next
    case False
    with Cons.prems have "hexMatch cs = Some r" by simp
    from Cons.IH [OF this] obtain pre post where p: "cs = pre @ r @ post" "32 \<le> length r"
      "list_all hexClass r" "post = [] \<or> \<not> hexClass (hd post)" "pre = [] \<or> \<not> hexClass (last pre)"
      by blast
    have "\<not> hexClass c" if "pre = []"
    proof
      assume c: "hexClass c"
      from p that have "takeWhile hexClass cs = r"
        by (cases post) (auto simp: list_all_iff intro: takeWhile_eq_all_conv [THEN iffD2])
      with c have "takeWhile hexClass (c # cs) = c # r" by simp
      with p(2) False show False by simp
    qed
    then have "c # pre = [] \<or> \<not> hexClass (last (c # pre))"
      using p(5) by auto
    moreover have "c # cs = (c # pre) @ r @ post" using p(1) by simp
    ultimately show ?thesis using p(2,3,4) by blast
  qed
qed

lemma hexMatch_None:
  "hexMatch s = None \<Longrightarrow> s = pre @ r @ post \<Longrightarrow> list_all hexClass r \<Longrightarrow> length r < 32"
proof (induction s arbitrary: pre)
  case Nil
  then show ?case by simp
next
  case (Cons c cs)
  from Cons.prems(1) have short: "\<not> 32 \<le> length (takeWhile hexClass (c # cs))"
    and rest: "hexMatch cs = None"
    by (simp_all split: if_splits)
  show ?case
  proof (cases pre)
    case Nil
    with Cons.prems(2) have "c # cs = r @ post" by simp
    with Cons.prems(3) have "length r \<le> length (takeWhile hexClass (c # cs))"
      by (metis length_append le_add1 list_all_iff takeWhile_append2)
    with short show ?thesis by simp
  next
    case (Cons p ps)
    with Cons.prems(2) have "cs = ps @ r @ post" by simp
    from Cons.IH [OF rest this Cons.prems(3)] show ?thesis .
  qed
qed


text \<open>
  C3, as stated, fails: the decrypted text is \<^verbatim>\<open>x\<close> followed by 32 hexadecimal characters
  in upper case. It has no run of 32 lowercase hexadecimal characters, so the rule of the
  specification returns the text; the decryptor returns the 32 characters, since its pattern
  has the flag \<^verbatim>\<open>i\<close>.
\<close>

theorem decryptCookieValue_matches_upper_case:
  "decipher (decryptingHost upperHexText) ''aes-128-cbc'' (replicate 16 (CHR 0x00))
     (replicate 16 (CHR 0x20)) (drop 3 (Buffer_from_hex v10Value)) = Inr upperHexText
   \<and> decryptCookieValue (decryptingHost upperHexText) v10Value
       = Some ''ABCDEF0123456789ABCDEF0123456789''
   \<and> spec_recover (toString_utf8 upperHexText) = ''xABCDEF0123456789ABCDEF0123456789''"
  by code_simp

text \<open>
  A second instance: a run of 32 characters comes before a run of 40. The decryptor returns
  the first one, where the comment in the source and the specification say the longest.
\<close>

lemma decryptCookieValue_first_run_not_longest:
  "decryptCookieValue (decryptingHost twoRunsText) v10Value
       = Some ''0123456789abcdef0123456789abcdef''
   \<and> spec_recover (toString_utf8 twoRunsText) = ''0123456789abcdef0123456789abcdef01234567''"
  by code_simp


text \<open>
  C3, amended. For a value of at least 4 bytes with the tag \<^verbatim>\<open>v10\<close> or \<^verbatim>\<open>v11\<close> that
  decrypts, the decryptor returns a string. If the decrypted text has a contiguous run of at
  least 32 hexadecimal characters, of either case, the result is such a run, and one that
  is not part of a longer run (no hexadecimal character stands before or after it in the
  text). Otherwise the result is the text without its non-printable characters.
\<close>

theorem decryptCookieValue_recovery:
  assumes "versioned encryptedHex" and "4 \<le> length (Buffer_from_hex encryptedHex)"
    and "keychain h = Inr output" and "trim output \<noteq> []"
    and "pbkdf2Sync h (trim output) ''saltysalt'' 1003 16 ''sha1'' = Inr derivedKey"
    and "decipher h ''aes-128-cbc'' derivedKey (replicate 16 (CHR 0x20))
           (drop 3 (Buffer_from_hex encryptedHex)) = Inr decrypted"
  shows "\<exists>r. decryptCookieValue h encryptedHex = Some r
     \<and> (if \<exists>pre run post. toString_utf8 decrypted = pre @ run @ post \<and> 32 \<le> length run
              \<and> list_all hexClass run
        then \<exists>pre post. toString_utf8 decrypted = pre @ r @ post \<and> 32 \<le> length r
              \<and> list_all hexClass r
              \<and> (post = [] \<or> \<not> hexClass (hd post)) \<and> (pre = [] \<or> \<not> hexClass (last pre))
        else r = stripNonPrintable (toString_utf8 decrypted))"
proof -
  let ?text = "toString_utf8 decrypted"
  have d: "decryptCookieValue h encryptedHex =
      (case hexMatch ?text of Some m \<Rightarrow> Some m | None \<Rightarrow> Some (stripNonPrintable ?text))"
    using assms(2-6) version_check [OF assms(1)]
    by (auto simp: decryptCookieValue_def Let_def)
  show ?thesis
  proof (cases "hexMatch ?text")
    case None
    then have ne: "\<not> (\<exists>pre run post. ?text = pre @ run @ post \<and> 32 \<le> length run
        \<and> list_all hexClass run)"
      using hexMatch_None [of ?text] by fastforce
    from None d have "decryptCookieValue h encryptedHex = Some (stripNonPrintable ?text)"
      by simp
    then show ?thesis
      by (intro exI [of _ "stripNonPrintable ?text"] conjI) (simp_all only: ne if_False)
  next
    case (Some m)
    from hexMatch_Some [OF Some] obtain pre post where
      "?text = pre @ m @ post" "32 \<le> length m" "list_all hexClass m"
      "post = [] \<or> \<not> hexClass (hd post)" "pre = [] \<or> \<not> hexClass (last pre)"
      by blast
    then have "\<exists>pre post. ?text = pre @ m @ post \<and> 32 \<le> length m \<and> list_all hexClass m
        \<and> (post = [] \<or> \<not> hexClass (hd post)) \<and> (pre = [] \<or> \<not> hexClass (last pre))"
      by blast
    moreover from this have ex: "\<exists>pre run post. ?text = pre @ run @ post \<and> 32 \<le> length run
        \<and> list_all hexClass run"
      by blast
    moreover from Some d have "decryptCookieValue h encryptedHex = Some m"
      by simp
    ultimately show ?thesis
      by (intro exI [of _ m] conjI) (simp_all only: ex if_True)
  qed
qed


theorem decryptCookieValue_recovery_witness:
  "versioned v10Value \<and> 4 \<le> length (Buffer_from_hex v10Value)
   \<and> keychain (decryptingHost keyMaterialText) = Inr (''c2VjcmV0'' @ [CHR 0x0A])
   \<and> trim (''c2VjcmV0'' @ [CHR 0x0A]) \<noteq> []
   \<and> decryptCookieValue (decryptingHost keyMaterialText) v10Value
       = Some ''0123456789abcdef0123456789abcdef01234567''"
proof -
  let ?h = "decryptingHost keyMaterialText"
  have a: "versioned v10Value"
    by code_simp
  have b: "4 \<le> length (Buffer_from_hex v10Value)"
    by code_simp
  have c: "keychain ?h = Inr (''c2VjcmV0'' @ [CHR 0x0A])"
    by code_simp
  have d: "trim (''c2VjcmV0'' @ [CHR 0x0A]) \<noteq> []"
    by code_simp
  have e: "pbkdf2Sync ?h (trim (''c2VjcmV0'' @ [CHR 0x0A])) ''saltysalt'' 1003 16 ''sha1''
      = Inr (replicate 16 (CHR 0x00))"
    by code_simp
  have f: "decipher ?h ''aes-128-cbc'' (replicate 16 (CHR 0x00)) (replicate 16 (CHR 0x20))
      (drop 3 (Buffer_from_hex v10Value)) = Inr keyMaterialText"
    by code_simp
  from decryptCookieValue_recovery [OF a b c d e f]
  obtain r where r: "decryptCookieValue ?h v10Value = Some r"
    by (elim exE conjE)
  moreover have "decryptCookieValue ?h v10Value
      = Some ''0123456789abcdef0123456789abcdef01234567''"
    by code_simp
  ultimately show ?thesis
    using a b c d by (intro conjI)
qed

subsection \<open>The rows of the Chrome query\<close>

lemma chromeRow_eq:
  "chromeRow h line st =
     (case chromeCookie h line of None \<Rightarrow> st | Some (n, v) \<Rightarrow> storeCookie n v st)"
  by (simp add: chromeRow_def chromeCookie_def Let_def truthy_def split: option.splits)

lemma chromeCookie_nonempty: "chromeCookie h line = Some (n, v) \<Longrightarrow> v \<noteq> []"
  by (auto simp: chromeCookie_def split: option.splits if_splits)

lemma storeCookie_authToken:
  "authToken (snd (storeCookie n v st)) =
     (if n = ''auth_token'' \<and> \<not> truthy (authToken (snd st)) then Some v else authToken (snd st))"
  by (cases st) (simp add: storeCookie_def)

lemma storeCookie_ct0:
  "ct0 (snd (storeCookie n v st)) =
     (if n = ''ct0'' \<and> \<not> truthy (ct0 (snd st)) then Some v else ct0 (snd st))"
  by (cases st) (auto simp add: storeCookie_def)

lemma storeCookie_jar: "fst (storeCookie n v st) = jar_set (fst st) n v"
  by (cases st) (simp add: storeCookie_def)

lemma chromeRows_append:
  "chromeRows h (xs @ ys) st = chromeRows h ys (chromeRows h xs st)"
  by (induction xs arbitrary: st) simp_all

lemma chromeRows_authToken_kept:
  "truthy (authToken (snd st)) \<Longrightarrow> authToken (snd (chromeRows h rows st)) = authToken (snd st)"
proof (induction rows arbitrary: st)
  case Nil
  then show ?case by simp
next
  case (Cons row rows)
  have "authToken (snd (chromeRow h row st)) = authToken (snd st)"
    using Cons.prems by (simp add: chromeRow_eq storeCookie_authToken split: option.splits)
  with Cons show ?case by simp
qed

lemma chromeRows_ct0_kept:
  "truthy (ct0 (snd st)) \<Longrightarrow> ct0 (snd (chromeRows h rows st)) = ct0 (snd st)"
proof (induction rows arbitrary: st)
  case Nil
  then show ?case by simp
next
  case (Cons row rows)
  have "ct0 (snd (chromeRow h row st)) = ct0 (snd st)"
    using Cons.prems by (simp add: chromeRow_eq storeCookie_ct0 split: option.splits)
  with Cons show ?case by simp
qed

lemma chromeRows_authToken_untouched:
  "\<forall>l \<in> set rows. \<forall>v. chromeCookie h l \<noteq> Some (''auth_token'', v)
     \<Longrightarrow> authToken (snd (chromeRows h rows st)) = authToken (snd st)"
proof (induction rows arbitrary: st)
  case Nil
  then show ?case by simp
next
  case (Cons row rows)
  have "authToken (snd (chromeRow h row st)) = authToken (snd st)"
    using Cons.prems by (auto simp add: chromeRow_eq storeCookie_authToken split: option.splits)
  with Cons show ?case by simp
qed

lemma chromeRows_ct0_untouched:
  "\<forall>l \<in> set rows. \<forall>v. chromeCookie h l \<noteq> Some (''ct0'', v)
     \<Longrightarrow> ct0 (snd (chromeRows h rows st)) = ct0 (snd st)"
proof (induction rows arbitrary: st)
  case Nil
  then show ?case by simp
next
  case (Cons row rows)
  have "ct0 (snd (chromeRow h row st)) = ct0 (snd st)"
    using Cons.prems by (auto simp add: chromeRow_eq storeCookie_ct0 split: option.splits)
  with Cons show ?case by simp
qed

lemma chromeRows_authToken_first:
  assumes "\<forall>l \<in> set pre. \<forall>v. chromeCookie h l \<noteq> Some (''auth_token'', v)"
    and "chromeCookie h row = Some (''auth_token'', v)"
    and "\<not> truthy (authToken (snd st))"
  shows "authToken (snd (chromeRows h (pre @ row # post) st)) = Some v"
proof -
  let ?s1 = "chromeRows h pre st"
  have "authToken (snd ?s1) = authToken (snd st)"
    using assms(1) by (rule chromeRows_authToken_untouched)
  with assms(3) have "authToken (snd (chromeRow h row ?s1)) = Some v"
    by (simp add: chromeRow_eq assms(2) storeCookie_authToken)
  moreover have "v \<noteq> []" using assms(2) by (rule chromeCookie_nonempty)
  ultimately have "authToken (snd (chromeRows h post (chromeRow h row ?s1))) = Some v"
    using chromeRows_authToken_kept [of "chromeRow h row ?s1" h post] by (simp add: truthy_def)
  then show ?thesis by (simp add: chromeRows_append)
qed

lemma chromeRows_ct0_first:
  assumes "\<forall>l \<in> set pre. \<forall>v. chromeCookie h l \<noteq> Some (''ct0'', v)"
    and "chromeCookie h row = Some (''ct0'', v)"
    and "\<not> truthy (ct0 (snd st))"
  shows "ct0 (snd (chromeRows h (pre @ row # post) st)) = Some v"
proof -
  let ?s1 = "chromeRows h pre st"
  have "ct0 (snd ?s1) = ct0 (snd st)"
    using assms(1) by (rule chromeRows_ct0_untouched)
  with assms(3) have "ct0 (snd (chromeRow h row ?s1)) = Some v"
    by (simp add: chromeRow_eq assms(2) storeCookie_ct0)
  moreover have "v \<noteq> []" using assms(2) by (rule chromeCookie_nonempty)
  ultimately have "ct0 (snd (chromeRows h post (chromeRow h row ?s1))) = Some v"
    using chromeRows_ct0_kept [of "chromeRow h row ?s1" h post] by (simp add: truthy_def)
  then show ?thesis by (simp add: chromeRows_append)
qed

lemma jar_set_other: "n \<noteq> m \<Longrightarrow> map_of (jar_set jar m v) n = map_of jar n"
  by (simp add: jar_set_def update_conv')

lemma jar_set_same: "n \<noteq> ''__proto__'' \<Longrightarrow> map_of (jar_set jar n v) n = Some v"
  by (simp add: jar_set_def update_conv')

lemma chromeRows_jar_untouched:
  "\<forall>l \<in> set rows. \<forall>v. chromeCookie h l \<noteq> Some (n, v)
     \<Longrightarrow> map_of (fst (chromeRows h rows st)) n = map_of (fst st) n"
proof (induction rows arbitrary: st)
  case Nil
  then show ?case by simp
next
  case (Cons row rows)
  have "map_of (fst (chromeRow h row st)) n = map_of (fst st) n"
    using Cons.prems
    by (auto simp add: chromeRow_eq storeCookie_jar jar_set_other split: option.splits)
  with Cons show ?case by simp
qed

lemma chromeRows_jar_last:
  assumes "chromeCookie h row = Some (n, v)" and "n \<noteq> ''__proto__''"
    and "\<forall>l \<in> set post. \<forall>v'. chromeCookie h l \<noteq> Some (n, v')"
  shows "map_of (fst (chromeRows h (pre @ row # post) st)) n = Some v"
proof -
  let ?s1 = "chromeRow h row (chromeRows h pre st)"
  have "map_of (fst ?s1) n = Some v"
    using assms(1,2) by (simp add: chromeRow_eq storeCookie_jar jar_set_same)
  moreover have "map_of (fst (chromeRows h post ?s1)) n = map_of (fst ?s1) n"
    using assms(3) by (rule chromeRows_jar_untouched)
  ultimately show ?thesis by (simp add: chromeRows_append)
qed


text \<open>
  C9, as stated, fails: with the rows \<^verbatim>\<open>auth_token=aaaa\<close>, \<^verbatim>\<open>ct0=bbbb\<close> the header holds
  \<^verbatim>\<open>auth_token=aaaa\<close>; a third row \<^verbatim>\<open>auth_token=cccc\<close> leaves the token field at \<^verbatim>\<open>aaaa\<close>
  and changes the jar, so the header holds \<^verbatim>\<open>auth_token=cccc\<close>.
\<close>

theorem duplicate_row_changes_header:
  "cookies (extractCookiesFromChrome uniqueRowsHost None) =
     \<lparr>authToken = Some ''aaaa'', ct0 = Some ''bbbb'',
      cookieHeader = Some ''auth_token=aaaa; ct0=bbbb'',
      source = Some ''Chrome default profile''\<rparr>
   \<and> cookies (extractCookiesFromChrome duplicateRowsHost None) =
     \<lparr>authToken = Some ''aaaa'', ct0 = Some ''bbbb'',
      cookieHeader = Some ''auth_token=cccc; ct0=bbbb'',
      source = Some ''Chrome default profile''\<rparr>"
  by code_simp

text \<open>
  C9, amended. In the loop over the rows of the Chrome query, started with the jar \<open>jar\<close>
  and the object \<open>ck\<close>:
  \<^item> a token field that is set is never changed;
  \<^item> a token field that is not set takes the value of the first row with its name whose
    value decrypts to a string that is not empty;
  \<^item> the jar holds, for a name, the value of the last such row with that name (the header
    is the serialized jar).
\<close>

theorem chrome_rows_first_token_last_jar:
  "(truthy (authToken ck) \<longrightarrow> authToken (snd (chromeRows h rows (jar, ck))) = authToken ck)
   \<and> (truthy (ct0 ck) \<longrightarrow> ct0 (snd (chromeRows h rows (jar, ck))) = ct0 ck)
   \<and> (\<not> truthy (authToken ck)
        \<and> (\<forall>l \<in> set pre. \<forall>v. chromeCookie h l \<noteq> Some (''auth_token'', v))
        \<and> chromeCookie h row = Some (''auth_token'', a)
      \<longrightarrow> authToken (snd (chromeRows h (pre @ row # post) (jar, ck))) = Some a)
   \<and> (\<not> truthy (ct0 ck)
        \<and> (\<forall>l \<in> set pre. \<forall>v. chromeCookie h l \<noteq> Some (''ct0'', v))
        \<and> chromeCookie h row = Some (''ct0'', c)
      \<longrightarrow> ct0 (snd (chromeRows h (pre @ row # post) (jar, ck))) = Some c)
   \<and> (chromeCookie h row = Some (n, v) \<and> n \<noteq> ''__proto__''
        \<and> (\<forall>l \<in> set post. \<forall>v'. chromeCookie h l \<noteq> Some (n, v'))
      \<longrightarrow> map_of (fst (chromeRows h (pre @ row # post) (jar, ck))) n = Some v)"
  using chromeRows_authToken_kept [of "(jar, ck)" h rows]
    chromeRows_ct0_kept [of "(jar, ck)" h rows]
    chromeRows_authToken_first [of pre h row a "(jar, ck)" post]
    chromeRows_ct0_first [of pre h row c "(jar, ck)" post]
    chromeRows_jar_last [of h row n v post pre "(jar, ck)"]
  by simp

theorem chrome_rows_first_token_last_jar_witness:
  "chromeCookie bareHost rowAuthA = Some (''auth_token'', ''aaaa'')
   \<and> chromeCookie bareHost rowAuthC = Some (''auth_token'', ''cccc'')
   \<and> \<not> truthy (authToken noCookies)
   \<and> authToken (snd (chromeRows bareHost ([] @ rowAuthA # [rowCt0B, rowAuthC])
        ([], noCookies))) = Some ''aaaa''
   \<and> map_of (fst (chromeRows bareHost ([rowAuthA, rowCt0B] @ rowAuthC # [])
        ([], noCookies))) ''auth_token'' = Some ''cccc''"
proof -
  have a: "chromeCookie bareHost rowAuthA = Some (''auth_token'', ''aaaa'')"
    by code_simp
  have c: "chromeCookie bareHost rowAuthC = Some (''auth_token'', ''cccc'')"
    by code_simp
  have n: "\<not> truthy (authToken noCookies)"
    by code_simp
  have p: "''auth_token'' \<noteq> ''__proto__''"
    by simp
  from chrome_rows_first_token_last_jar
    [of noCookies bareHost "[]" "[]" "[]" rowAuthA "''aaaa''" "[rowCt0B, rowAuthC]"] a n
  have first: "authToken (snd (chromeRows bareHost ([] @ rowAuthA # [rowCt0B, rowAuthC])
      ([], noCookies))) = Some ''aaaa''"
    by simp
  from chrome_rows_first_token_last_jar
    [of noCookies bareHost "[]" "[]" "[rowAuthA, rowCt0B]" rowAuthC _ "[]" _ "''auth_token''"
      "''cccc''"] c p
  have last: "map_of (fst (chromeRows bareHost ([rowAuthA, rowCt0B] @ rowAuthC # [])
      ([], noCookies))) ''auth_token'' = Some ''cccc''"
    by simp
  from a c n first last show ?thesis
    by (intro conjI)
qed

subsection \<open>The Safari parser\<close>

lemma of_char_nonneg: "0 \<le> (of_char c :: int)"
  by (cases c) simp

lemma readUInt32LE_ok:
  "0 \<le> offset \<Longrightarrow> offset + 4 \<le> int (length buffer)
     \<Longrightarrow> \<exists>v. readUInt32LE buffer offset = Inr v \<and> 0 \<le> v"
  by (simp add: readUInt32LE_def of_char_nonneg)

lemma readUInt32BE_ok:
  "0 \<le> offset \<Longrightarrow> offset + 4 \<le> int (length buffer)
     \<Longrightarrow> \<exists>v. readUInt32BE buffer offset = Inr v \<and> 0 \<le> v"
  by (simp add: readUInt32BE_def of_char_nonneg)

lemma scanNul_ok:
  "0 \<le> cursor \<Longrightarrow> fin \<le> int (length buffer) \<Longrightarrow> \<exists>c. scanNul buffer cursor fin = Inr c"
proof (induction buffer cursor fin rule: scanNul.induct)
  case (1 buffer cursor fin)
  show ?case
  proof (cases "cursor < fin")
    case False
    then show ?thesis by (simp add: scanNul.simps)
  next
    case True
    with "1.prems" obtain b where b: "byteAt buffer cursor = Inr b"
      by (auto simp: byteAt_def)
    show ?thesis
    proof (cases "b \<noteq> CHR 0x00")
      case False
      with True b show ?thesis by (simp add: scanNul.simps [of buffer cursor fin])
    next
      case nz: True
      from "1.IH" [OF True b nz] "1.prems" obtain c where
        "scanNul buffer (cursor + 1) fin = Inr c" by auto
      with True b nz show ?thesis by (simp add: scanNul.simps [of buffer cursor fin])
    qed
  qed
qed

lemma readSafariCString_ok:
  "fin \<le> int (length buffer) \<Longrightarrow> \<exists>r. readSafariCString buffer start fin = Inr r"
proof (cases "start < 0 \<or> start \<ge> fin")
  case True
  then show ?thesis by (simp add: readSafariCString_def)
next
  case False
  assume "fin \<le> int (length buffer)"
  with False obtain c where "scanNul buffer start fin = Inr c"
    using scanNul_ok [of start fin buffer] by auto
  with False show ?thesis by (simp add: readSafariCString_def)
qed

lemma parseSafariCookieRecord_ok:
  "\<exists>st'. parseSafariCookieRecord h page offset st = Inr st'"
proof (cases "offset < 0 \<or> offset + 4 > int (length page)")
  case True
  then show ?thesis by (simp add: parseSafariCookieRecord_def)
next
  case inb: False
  then obtain recordSize where rs: "readUInt32LE page offset = Inr recordSize" "0 \<le> recordSize"
    using readUInt32LE_ok [of offset page] by auto
  show ?thesis
  proof (cases "recordSize \<le> 0 \<or> offset + recordSize > int (length page)")
    case True
    with inb rs show ?thesis by (auto simp add: parseSafariCookieRecord_def reading_def Let_def)
  next
    case fits: False
    show ?thesis
    proof (cases "offset + 4 + 28 > offset + recordSize")
      case True
      with inb rs fits show ?thesis
        by (auto simp add: parseSafariCookieRecord_def reading_def Let_def)
    next
      case hdr: False
      from inb fits hdr have
        "0 \<le> offset + 4 + 12 \<and> offset + 4 + 12 + 4 \<le> int (length page)"
        "0 \<le> offset + 4 + 16 \<and> offset + 4 + 16 + 4 \<le> int (length page)"
        "0 \<le> offset + 4 + 24 \<and> offset + 4 + 24 + 4 \<le> int (length page)"
        by arith+
      then obtain domainOffset nameOffset valueOffset where
        f: "readUInt32LE page (offset + 4 + 12) = Inr domainOffset"
           "readUInt32LE page (offset + 4 + 16) = Inr nameOffset"
           "readUInt32LE page (offset + 4 + 24) = Inr valueOffset"
        using readUInt32LE_ok [of "offset + 4 + 12" page] readUInt32LE_ok [of "offset + 4 + 16" page]
          readUInt32LE_ok [of "offset + 4 + 24" page]
        by blast
      from fits obtain domain name val where
        s: "readSafariCString page (offset + domainOffset) (offset + recordSize) = Inr domain"
           "readSafariCString page (offset + nameOffset) (offset + recordSize) = Inr name"
           "readSafariCString page (offset + valueOffset) (offset + recordSize) = Inr val"
        using readSafariCString_ok [of "offset + recordSize" page] by (meson linorder_not_less)
      from inb rs fits hdr f s show ?thesis
        by (auto simp add: parseSafariCookieRecord_def reading_def Let_def split: option.splits)
    qed
  qed
qed

lemma readOffsets_ok:
  "0 \<le> cursor \<Longrightarrow> \<exists>r. readOffsets page cookieCount i cursor offsets = Inr r"
proof (induction page cookieCount i cursor offsets rule: readOffsets.induct)
  case (1 page cookieCount i cursor offsets)
  show ?case
  proof (cases "i < cookieCount \<and> \<not> cursor + 4 > int (length page)")
    case False
    then show ?thesis by (auto simp: readOffsets.simps [of page cookieCount i cursor offsets])
  next
    case True
    with "1.prems" obtain v where v: "readUInt32LE page cursor = Inr v"
      using readUInt32LE_ok [of cursor page] by auto
    from True v "1.IH" [of v] "1.prems" obtain r where
      "readOffsets page cookieCount (i + 1) (cursor + 4) (offsets @ [v]) = Inr r"
      by auto
    with True v show ?thesis by (simp add: readOffsets.simps [of page cookieCount i cursor offsets])
  qed
qed

lemma parseRecords_ok: "\<exists>st'. parseRecords h page offsets st = Inr st'"
proof (induction offsets arbitrary: st)
  case Nil
  then show ?case by simp
next
  case (Cons offset offsets)
  obtain st1 where "parseSafariCookieRecord h page offset st = Inr st1"
    using parseSafariCookieRecord_ok by blast
  with Cons [of st1] show ?case by simp
qed

lemma parseSafariCookiePage_ok: "\<exists>st'. parseSafariCookiePage h page st = Inr st'"
proof (cases "int (length page) < 12")
  case True
  then show ?thesis by (simp add: parseSafariCookiePage_def)
next
  case False
  then obtain cookieCount where c: "readUInt32LE page 4 = Inr cookieCount"
    using readUInt32LE_ok [of 4 page] by auto
  obtain r where r: "readOffsets page cookieCount 0 8 [] = Inr r"
    using readOffsets_ok [of 8 page cookieCount 0 "[]"] by auto
  from False c r parseRecords_ok [of h page _ st] show ?thesis
    by (auto simp: parseSafariCookiePage_def reading_def split: option.splits)
qed

lemma readPageSizes_ok:
  "0 \<le> cursor \<Longrightarrow> \<exists>r. readPageSizes data pageCount i cursor pageSizes = Inr r"
proof (induction data pageCount i cursor pageSizes rule: readPageSizes.induct)
  case (1 data pageCount i cursor pageSizes)
  show ?case
  proof (cases "i < pageCount \<and> \<not> cursor + 4 > int (length data)")
    case False
    then show ?thesis
      by (auto simp: readPageSizes.simps [of data pageCount i cursor pageSizes])
  next
    case True
    with "1.prems" obtain v where v: "readUInt32BE data cursor = Inr v"
      using readUInt32BE_ok [of cursor data] by auto
    from True v "1.IH" [of v] "1.prems" obtain r where
      "readPageSizes data pageCount (i + 1) (cursor + 4) (pageSizes @ [v]) = Inr r"
      by auto
    with True v show ?thesis
      by (simp add: readPageSizes.simps [of data pageCount i cursor pageSizes])
  qed
qed

lemma parsePages_ok: "\<exists>st'. parsePages h data pageSizes cursor st = Inr st'"
proof (induction pageSizes arbitrary: cursor st)
  case Nil
  then show ?case by simp
next
  case (Cons pageSize pageSizes)
  obtain st1 where
    "parseSafariCookiePage h (subarray data cursor (cursor + pageSize)) st = Inr st1"
    using parseSafariCookiePage_ok by blast
  with Cons [of "cursor + pageSize" st1] show ?case by simp
qed

lemma parseSafariCookies_ok: "\<exists>st'. parseSafariCookies h data st = Inr st'"
proof (cases "int (length data) < 8")
  case True
  then show ?thesis by (simp add: parseSafariCookies_def)
next
  case False
  then obtain pageCount where c: "readUInt32BE data 4 = Inr pageCount"
    using readUInt32BE_ok [of 4 data] by auto
  obtain r where r: "readPageSizes data pageCount 0 8 [] = Inr r"
    using readPageSizes_ok [of 8 data pageCount 0 "[]"] by auto
  from False c r parsePages_ok [of h data _ _ st] show ?thesis
    by (auto simp: parseSafariCookies_def reading_def split: option.splits)
qed

lemma toString_utf8_head:
  "\<not> inRange 0x00 0x7F b \<Longrightarrow>
     toString_utf8 (b # bs) \<noteq> [] \<and> \<not> inRange 0x00 0x7F (hd (toString_utf8 (b # bs)))"
  by (auto simp: replacement_def inRange_def split: list.splits)

lemma toString_utf8_ascii:
  "toString_utf8 bs = s \<Longrightarrow> list_all (inRange 0x00 0x7F) s \<Longrightarrow> bs = s"
proof (induction s arbitrary: bs)
  case Nil
  show ?case
  proof (cases bs)
    case Nil
    then show ?thesis by simp
  next
    case (Cons b bs')
    with Nil.prems toString_utf8_head [of b bs'] show ?thesis
      by (cases "inRange 0x00 0x7F b") auto
  qed
next
  case (Cons c s)
  show ?case
  proof (cases bs)
    case Nil
    with Cons.prems show ?thesis by simp
  next
    case bs: (Cons b bs')
    show ?thesis
    proof (cases "inRange 0x00 0x7F b")
      case True
      with Cons.prems bs have "b = c" "toString_utf8 bs' = s" by simp_all
      with Cons.IH [of bs'] Cons.prems(2) bs show ?thesis by simp
    next
      case False
      from toString_utf8_head [OF False, of bs'] Cons.prems bs show ?thesis
        by simp
    qed
  qed
qed

lemma magic_check:
  assumes "toString_utf8 (subarray data 0 4) = ''cook''"
  shows "take 4 data = ''cook''"
proof -
  have "list_all (inRange 0x00 0x7F) ''cook''"
    by (simp add: inRange_def)
  from toString_utf8_ascii [OF assms this] show ?thesis
    by (simp add: subarray_def)
qed

lemma trim_Nil: "trim [] = []"
  by code_simp

text \<open>The container of the test suite is read as the test expects.\<close>

lemma safari_test_file:
  "extractCookiesFromSafari safariHost =
     \<lparr>cookies = \<lparr>authToken = Some ''safari_auth'', ct0 = Some ''safari_ct0'',
                  cookieHeader = Some ''auth_token=safari_auth; ct0=safari_ct0'',
                  source = Some ''Safari''\<rparr>, warnings = []\<rparr>"
  by code_simp


text \<open>
  C7. The parser is a total function, and for every buffer, every jar and every
  \<^verbatim>\<open>cookies\<close> object it ends without a fault: no \<^verbatim>\<open>readUInt32\<close> outside the buffer (the
  RangeError of Node) and no indexed read outside the buffer. A buffer whose first four
  bytes are not \<^verbatim>\<open>cook\<close> leaves the jar and the object as they were, and the extractor then
  returns the empty \<^verbatim>\<open>cookies\<close> object.
\<close>

theorem parseSafariCookies_never_faults:
  "(\<exists>st'. parseSafariCookies h data st = Inr st')
   \<and> (take 4 data \<noteq> ''cook'' \<longrightarrow> parseSafariCookies h data st = Inr st)
   \<and> (take 4 data \<noteq> ''cook'' \<and> getSafariCookiesPath h = Some path \<and> path \<noteq> []
        \<and> readSafariFile h path = Inr data
      \<longrightarrow> cookies (extractCookiesFromSafari h) = noCookies)"
proof (intro conjI impI)
  show "\<exists>st'. parseSafariCookies h data st = Inr st'"
    by (rule parseSafariCookies_ok)
next
  assume "take 4 data \<noteq> ''cook''"
  then have "toString_utf8 (subarray data 0 4) \<noteq> ''cook''"
    using magic_check by blast
  then show "parseSafariCookies h data st = Inr st"
    by (simp add: parseSafariCookies_def)
next
  assume a: "take 4 data \<noteq> ''cook'' \<and> getSafariCookiesPath h = Some path \<and> path \<noteq> []
        \<and> readSafariFile h path = Inr data"
  then have "toString_utf8 (subarray data 0 4) \<noteq> ''cook''"
    using magic_check by blast
  then have "parseSafariCookies h data ([], noCookies) = Inr ([], noCookies)"
    by (simp add: parseSafariCookies_def)
  with a show "cookies (extractCookiesFromSafari h) = noCookies"
    by (simp add: extractCookiesFromSafari_def sealCookies_def Object_keys_def
        Object_entries_def noCookies_def truthy_def Let_def)
qed


theorem parseSafariCookies_never_faults_witness:
  "take 4 badMagic \<noteq> ''cook''
   \<and> parseSafariCookies bareHost badMagic ([], noCookies) = Inr ([], noCookies)"
proof -
  have a: "take 4 badMagic \<noteq> ''cook''"
    by code_simp
  from parseSafariCookies_never_faults [of bareHost badMagic "([], noCookies)"] a
  have "parseSafariCookies bareHost badMagic ([], noCookies) = Inr ([], noCookies)"
    by blast
  with a show ?thesis
    by (intro conjI)
qed

text \<open>
  C6, as stated, fails: a record of domain \<^verbatim>\<open>x.com\<close> whose name is one space and whose value
  is \<^verbatim>\<open>v\<close> is emitted, although its name is empty after trimming. The parser trims the
  value only.
\<close>

theorem blank_name_is_emitted:
  "readSafariCString blankNameRecord 32 42 = Inr (Some ''x.com'')
   \<and> readSafariCString blankNameRecord 38 42 = Inr (Some '' '')
   \<and> readSafariCString blankNameRecord 40 42 = Inr (Some ''v'')
   \<and> trim '' '' = []
   \<and> parseSafariCookieRecord bareHost blankNameRecord 0 ([], noCookies)
       = Inr ([('' '', ''v'')], noCookies)"
  by code_simp


text \<open>
  C6, amended. For a record inside its page (length word, end and header within bounds),
  with \<open>domain\<close>, \<open>name\<close> and \<open>val\<close> the strings read at its three offsets: the parser stores
  the cookie (\<open>storeCookie\<close>, the name with the trimmed value) if and only if the name is
  present and not empty, the value is present and not empty after trimming, and the domain
  matches; otherwise it leaves the state as it was. The domain matches if and only if it is
  present and not empty and, with one leading dot removed and in lower case, it is
  \<^verbatim>\<open>x.com\<close> or \<^verbatim>\<open>twitter.com\<close> or ends with \<^verbatim>\<open>.x.com\<close> or \<^verbatim>\<open>.twitter.com\<close>.
\<close>

theorem parseSafariCookieRecord_emits:
  assumes "0 \<le> offset" and "offset + 4 \<le> int (length page)"
    and "readUInt32LE page offset = Inr recordSize"
    and "32 \<le> recordSize" and "offset + recordSize \<le> int (length page)"
    and "readUInt32LE page (offset + 16) = Inr domainOffset"
    and "readUInt32LE page (offset + 20) = Inr nameOffset"
    and "readUInt32LE page (offset + 28) = Inr valueOffset"
    and "readSafariCString page (offset + domainOffset) (offset + recordSize) = Inr domain"
    and "readSafariCString page (offset + nameOffset) (offset + recordSize) = Inr name"
    and "readSafariCString page (offset + valueOffset) (offset + recordSize) = Inr val"
  shows "parseSafariCookieRecord h page offset st =
           Inr (case (name, val) of
                  (Some n, Some v) \<Rightarrow>
                    if n \<noteq> [] \<and> trim v \<noteq> [] \<and> matchesSafariDomain h domain
                    then storeCookie n (trim v) st else st
                | _ \<Rightarrow> st)
     \<and> (matchesSafariDomain h domain \<longleftrightarrow>
          (\<exists>d. domain = Some d \<and> d \<noteq> []
             \<and> (let normalized = toLowerCase h (if take 1 d = ''.'' then drop 1 d else d)
                in normalized = ''x.com'' \<or> normalized = ''twitter.com''
                   \<or> endsWith normalized ''.x.com'' \<or> endsWith normalized ''.twitter.com'')))"
proof
  have h16: "offset + 4 + 12 = offset + 16" and h20: "offset + 4 + 16 = offset + 20"
    and h28: "offset + 4 + 24 = offset + 28"
    by simp_all
  have nv: "normalizeValue (Some v) = (if trim v = [] then None else Some (trim v))" for v
    by (simp add: normalizeValue_def Let_def)
  have tv: "trim v \<noteq> [] \<Longrightarrow> v \<noteq> []" for v
    using trim_Nil by auto
  from assms show "parseSafariCookieRecord h page offset st =
           Inr (case (name, val) of
                  (Some n, Some v) \<Rightarrow>
                    if n \<noteq> [] \<and> trim v \<noteq> [] \<and> matchesSafariDomain h domain
                    then storeCookie n (trim v) st else st
                | _ \<Rightarrow> st)"
    by (auto simp: parseSafariCookieRecord_def reading_def Let_def h16 h20 h28 truthy_def nv
        dest: tv split: option.splits)
next
  show "matchesSafariDomain h domain \<longleftrightarrow>
          (\<exists>d. domain = Some d \<and> d \<noteq> []
             \<and> (let normalized = toLowerCase h (if take 1 d = ''.'' then drop 1 d else d)
                in normalized = ''x.com'' \<or> normalized = ''twitter.com''
                   \<or> endsWith normalized ''.x.com'' \<or> endsWith normalized ''.twitter.com''))"
    by (cases domain)
      (auto simp: matchesSafariDomain_def SAFARI_COOKIE_DOMAINS_def startsWith_def Let_def)
qed


theorem parseSafariCookieRecord_emits_witness:
  "readUInt32LE ct0Record 0 = Inr 49
   \<and> readSafariCString ct0Record 32 49 = Inr (Some ''.X.com'')
   \<and> readSafariCString ct0Record 39 49 = Inr (Some ''ct0'')
   \<and> readSafariCString ct0Record 43 49 = Inr (Some '' abc '')
   \<and> matchesSafariDomain bareHost (Some ''.X.com'')
   \<and> trim '' abc '' = ''abc''
   \<and> parseSafariCookieRecord bareHost ct0Record 0 ([], noCookies)
       = Inr (storeCookie ''ct0'' ''abc'' ([], noCookies))"
proof -
  have a: "(0::int) \<le> 0" "0 + 4 \<le> int (length ct0Record)"
    by code_simp+
  have b: "readUInt32LE ct0Record 0 = Inr 49"
    by code_simp
  have c: "(32::int) \<le> 49" "0 + 49 \<le> int (length ct0Record)"
    by code_simp+
  have d: "readUInt32LE ct0Record (0 + 16) = Inr 32" "readUInt32LE ct0Record (0 + 20) = Inr 39"
    "readUInt32LE ct0Record (0 + 28) = Inr 43"
    by code_simp+
  have e: "readSafariCString ct0Record (0 + 32) (0 + 49) = Inr (Some ''.X.com'')"
    "readSafariCString ct0Record (0 + 39) (0 + 49) = Inr (Some ''ct0'')"
    "readSafariCString ct0Record (0 + 43) (0 + 49) = Inr (Some '' abc '')"
    by code_simp+
  have m: "matchesSafariDomain bareHost (Some ''.X.com'')"
    by code_simp
  have t: "trim '' abc '' = ''abc''"
    by code_simp
  from parseSafariCookieRecord_emits
    [OF a b c d e, of bareHost "([], noCookies)"] m t
  have "parseSafariCookieRecord bareHost ct0Record 0 ([], noCookies)
       = Inr (storeCookie ''ct0'' ''abc'' ([], noCookies))"
    by simp
  with b e m t show ?thesis
    by simp
qed

subsection \<open>The cookie header\<close>

lemma sound_start: "sound ([], noCookies)"
  by (simp add: sound_def noCookies_def)

lemma update_nonempty: "AList.update k v al \<noteq> []"
  by (cases al) simp_all

lemma sound_storeCookie: "sound st \<Longrightarrow> sound (storeCookie n v st)"
  by (cases st) (auto simp: sound_def storeCookie_def jar_set_def update_nonempty)

lemma parseSafariCookieRecord_keeps:
  assumes "\<And>n v s. P s \<Longrightarrow> P (storeCookie n v s)" and "P st"
    and "parseSafariCookieRecord h page offset st = Inr st'"
  shows "P st'"
  using assms(2,3) assms(1) [of st]
  by (auto simp: parseSafariCookieRecord_def reading_def Let_def
      split: if_splits sum.splits option.splits)

lemma parseRecords_keeps:
  assumes "\<And>n v s. P s \<Longrightarrow> P (storeCookie n v s)"
  shows "P st \<Longrightarrow> parseRecords h page offsets st = Inr st' \<Longrightarrow> P st'"
proof (induction offsets arbitrary: st)
  case Nil
  then show ?case by simp
next
  case (Cons offset offsets)
  from Cons.prems(2) obtain st1 where
    a: "parseSafariCookieRecord h page offset st = Inr st1"
    and b: "parseRecords h page offsets st1 = Inr st'"
    by (auto split: sum.splits)
  from parseSafariCookieRecord_keeps [of P, OF assms Cons.prems(1) a] have "P st1" .
  from Cons.IH [OF this b] show ?case .
qed

lemma parseSafariCookiePage_keeps:
  assumes "\<And>n v s. P s \<Longrightarrow> P (storeCookie n v s)" and "P st"
    and "parseSafariCookiePage h page st = Inr st'"
  shows "P st'"
  using assms(2,3) parseRecords_keeps [of P st h page _ st', OF assms(1)]
  by (auto simp: parseSafariCookiePage_def reading_def
      split: if_splits sum.splits option.splits)

lemma parsePages_keeps:
  assumes "\<And>n v s. P s \<Longrightarrow> P (storeCookie n v s)"
  shows "P st \<Longrightarrow> parsePages h data pageSizes cursor st = Inr st' \<Longrightarrow> P st'"
proof (induction pageSizes arbitrary: st cursor)
  case Nil
  then show ?case by simp
next
  case (Cons pageSize pageSizes)
  show ?case
  proof (cases "cursor + pageSize > int (length data)")
    case True
    with Cons.prems show ?thesis by simp
  next
    case False
    with Cons.prems(2) obtain st1 where
      a: "parseSafariCookiePage h (subarray data cursor (cursor + pageSize)) st = Inr st1"
      and b: "parsePages h data pageSizes (cursor + pageSize) st1 = Inr st'"
      by (auto split: sum.splits)
    from parseSafariCookiePage_keeps [of P, OF assms Cons.prems(1) a] have "P st1" .
    from Cons.IH [OF this b] show ?thesis .
  qed
qed

lemma parseSafariCookies_keeps:
  assumes "\<And>n v s. P s \<Longrightarrow> P (storeCookie n v s)" and "P st"
    and "parseSafariCookies h data st = Inr st'"
  shows "P st'"
  using assms(2,3) parsePages_keeps [of P st h data _ _ st', OF assms(1)]
  by (auto simp: parseSafariCookies_def reading_def
      split: if_splits sum.splits option.splits)

lemma chromeRows_sound: "sound st \<Longrightarrow> sound (chromeRows h rows st)"
proof (induction rows arbitrary: st)
  case Nil
  then show ?case by simp
next
  case (Cons row rows)
  have "sound (chromeRow h row st)"
    using Cons.prems by (auto simp: chromeRow_eq sound_storeCookie split: option.splits)
  then show ?case using Cons.IH by simp
qed

lemma firefoxRows_sound: "sound st \<Longrightarrow> sound (firefoxRows rows st)"
proof (induction rows arbitrary: st)
  case Nil
  then show ?case by simp
next
  case (Cons row rows)
  have "sound (firefoxRow row st)"
    using Cons.prems
    by (auto simp: firefoxRow_def Let_def sound_storeCookie split: option.splits)
  then show ?case using Cons.IH by simp
qed

lemma length_Object_keys: "length (Object_keys jar) = length jar"
  using sum_length_filter_compl [of "\<lambda>p. arrayIndex (fst p) \<noteq> None" jar]
  by (simp add: Object_keys_def Object_entries_def split_def)

lemma sealCookies_header:
  "sound st \<Longrightarrow>
     cookieHeader (sealCookies h label st) =
       (if fst st = [] then None else Some (serializeCookieJar h (fst st)))
     \<and> authToken (sealCookies h label st) = authToken (snd st)
     \<and> ct0 (sealCookies h label st) = ct0 (snd st)"
  by (cases st) (auto simp: sealCookies_def sound_def length_Object_keys Let_def)


lemma sealed:
  assumes "sound st"
  shows "cookieHeader (sealCookies h label st) = headerOf h (fst st)
     \<and> (authToken (sealCookies h label st) \<noteq> None \<or> ct0 (sealCookies h label st) \<noteq> None
          \<longrightarrow> cookieHeader (sealCookies h label st) \<noteq> None)"
  using sealCookies_header [OF assms, of h label] assms
  by (auto simp: headerOf_def sound_def)

lemma noCookies_fields:
  "cookieHeader noCookies = None" "authToken noCookies = None" "ct0 noCookies = None"
  by (simp_all add: noCookies_def)

lemma chrome_header:
  "cookieHeader (cookies (extractCookiesFromChrome h profile)) = headerOf h (chromeJar h profile)
   \<and> (authToken (cookies (extractCookiesFromChrome h profile)) \<noteq> None
        \<or> ct0 (cookies (extractCookiesFromChrome h profile)) \<noteq> None
      \<longrightarrow> cookieHeader (cookies (extractCookiesFromChrome h profile)) \<noteq> None)"
proof (cases "existsSync h (getChromeCookiesPath h profile)")
  case False
  then show ?thesis
    by (simp add: extractCookiesFromChrome_def chromeJar_def headerOf_def noCookies_fields Let_def)
next
  case ex: True
  show ?thesis
  proof (cases "sqliteChrome h (getChromeCookiesPath h profile)")
    case (Inl e)
    with ex show ?thesis
      by (simp add: extractCookiesFromChrome_def chromeJar_def headerOf_def noCookies_fields
          Let_def)
  next
    case (Inr out)
    let ?st = "if trim out \<noteq> []
               then chromeRows h (split (CHR 0x0A) (trim out)) ([], noCookies)
               else ([], noCookies)"
    have s: "sound ?st"
      by (simp add: sound_start chromeRows_sound)
    have j: "chromeJar h profile = fst ?st"
      using ex Inr by (simp add: chromeJar_def)
    have c: "cookies (extractCookiesFromChrome h profile) = sealCookies h (chromeLabel profile) ?st"
      using ex Inr by (simp add: extractCookiesFromChrome_def Let_def)
    show ?thesis
      unfolding c j by (rule sealed [OF s])
  qed
qed

lemma firefox_header:
  assumes "extractCookiesFromFirefox h profile = Inr r"
  shows "cookieHeader (cookies r) = headerOf h (firefoxJar h profile)
   \<and> (authToken (cookies r) \<noteq> None \<or> ct0 (cookies r) \<noteq> None
      \<longrightarrow> cookieHeader (cookies r) \<noteq> None)"
proof -
  from assms obtain found where f: "getFirefoxCookiesPath h profile = Inr found"
    by (auto simp: extractCookiesFromFirefox_def split: sum.splits)
  show ?thesis
  proof (cases "\<exists>p. found = Some p \<and> p \<noteq> []")
    case False
    with f assms show ?thesis
      by (cases found)
        (auto simp: extractCookiesFromFirefox_def firefoxJar_def headerOf_def noCookies_fields)
  next
    case True
    then obtain p where p: "found = Some p" "p \<noteq> []" by blast
    show ?thesis
    proof (cases "sqliteFirefox h p")
      case (Inl e)
      with f p assms show ?thesis
        by (auto simp: extractCookiesFromFirefox_def firefoxJar_def headerOf_def
            noCookies_fields Let_def)
    next
      case (Inr out)
      let ?st = "if trim out \<noteq> []
                 then firefoxRows (split (CHR 0x0A) (trim out)) ([], noCookies)
                 else ([], noCookies)"
      have s: "sound ?st"
        by (simp add: sound_start firefoxRows_sound)
      have j: "firefoxJar h profile = fst ?st"
        using f p Inr by (simp add: firefoxJar_def)
      have c: "cookies r = sealCookies h (firefoxLabel profile) ?st"
        using f p Inr assms by (auto simp: extractCookiesFromFirefox_def Let_def)
      show ?thesis
        unfolding c j by (rule sealed [OF s])
    qed
  qed
qed

lemma safari_header:
  "cookieHeader (cookies (extractCookiesFromSafari h)) = headerOf h (safariJar h)
   \<and> (authToken (cookies (extractCookiesFromSafari h)) \<noteq> None
        \<or> ct0 (cookies (extractCookiesFromSafari h)) \<noteq> None
      \<longrightarrow> cookieHeader (cookies (extractCookiesFromSafari h)) \<noteq> None)"
proof (cases "\<exists>p. getSafariCookiesPath h = Some p \<and> p \<noteq> []")
  case False
  then show ?thesis
    by (cases "getSafariCookiesPath h")
      (auto simp: extractCookiesFromSafari_def safariJar_def headerOf_def noCookies_fields)
next
  case True
  then obtain p where p: "getSafariCookiesPath h = Some p" "p \<noteq> []" by blast
  show ?thesis
  proof (cases "readSafariFile h p")
    case (Inl e)
    with p show ?thesis
      by (simp add: extractCookiesFromSafari_def safariJar_def headerOf_def noCookies_fields
          Let_def)
  next
    case (Inr data)
    obtain st where st: "parseSafariCookies h data ([], noCookies) = Inr st"
      using parseSafariCookies_ok by blast
    have s: "sound st"
      using sound_storeCookie sound_start st by (rule parseSafariCookies_keeps)
    have j: "safariJar h = fst st"
      using p Inr st by (simp add: safariJar_def)
    have c: "cookies (extractCookiesFromSafari h) = sealCookies h ''Safari'' st"
      using p Inr st by (simp add: extractCookiesFromSafari_def Let_def)
    show ?thesis
      unfolding c j by (rule sealed [OF s])
  qed
qed

lemma extractFrom_header:
  assumes "extractFrom h opts s = Inr r" and "complete (cookies r)"
  shows "cookieHeader (cookies r) \<noteq> None"
proof -
  from assms(2) have t: "authToken (cookies r) \<noteq> None"
    by (auto simp: complete_def truthy_def split: option.splits)
  show ?thesis
  proof (cases s)
    case safari
    with assms(1) have "r = extractCookiesFromSafari h"
      by (simp add: extractFrom_def)
    with t safari_header [of h] show ?thesis by blast
  next
    case chrome
    with assms(1) have "r = extractCookiesFromChrome h (chromeProfile opts)"
      by (simp add: extractFrom_def)
    with t chrome_header [of h "chromeProfile opts"] show ?thesis by blast
  next
    case firefox
    with assms(1) have "extractCookiesFromFirefox h (firefoxProfile opts) = Inr r"
      by (simp add: extractFrom_def)
    from firefox_header [OF this] t show ?thesis by blast
  qed
qed

lemma cascade_result:
  "cascade h opts srcs ck ws = Inr res \<Longrightarrow>
     (\<exists>ws'. res = validation ck ws')
     \<or> (\<exists>s \<in> set srcs. \<exists>r. extractFrom h opts s = Inr r \<and> complete (cookies r)
           \<and> cookies res = cookies r)"
proof (induction srcs arbitrary: ws)
  case Nil
  then show ?case by auto
next
  case (Cons s srcs)
  from Cons.prems obtain r where r: "extractFrom h opts s = Inr r"
    by (auto simp: cascade_Cons simp del: cascade.simps split: sum.splits)
  show ?case
  proof (cases "complete (cookies r)")
    case True
    with Cons.prems r have "cookies res = cookies r"
      by (auto simp: cascade_Cons simp del: cascade.simps)
    with r True show ?thesis by auto
  next
    case False
    with Cons.prems r have "cascade h opts srcs ck (ws @ warnings r) = Inr res"
      by (simp add: cascade_Cons del: cascade.simps)
    from Cons.IH [OF this] show ?thesis by auto
  qed
qed

lemma envAuthToken_nonempty:
  "authToken ck \<noteq> Some [] \<Longrightarrow> authToken (envAuthToken h keys ck) \<noteq> Some []"
  by (induction keys) (auto simp: Let_def truthy_def split: option.splits)

lemma envCt0_nonempty:
  "ct0 ck \<noteq> Some [] \<Longrightarrow> ct0 (envCt0 h keys ck) \<noteq> Some []"
  by (induction keys) (auto simp: Let_def truthy_def split: option.splits)

lemma preCascade_tokens:
  "authToken (preCascade h opts) \<noteq> Some [] \<and> ct0 (preCascade h opts) \<noteq> Some []"
proof -
  let ?c = "cliArguments opts noCookies"
  have a: "authToken ?c \<noteq> Some []" and c: "ct0 ?c \<noteq> Some []"
    by (auto simp: cliArguments_def Let_def truthy_def noCookies_def split: option.splits)
  show ?thesis
    using a c envAuthToken_nonempty [of ?c h] envCt0_nonempty [of _ h]
    by (simp add: preCascade_def environmentVariables_def Let_def
        del: envAuthToken.simps envCt0.simps)
qed

lemma resolve_header:
  assumes "resolveCredentials h opts = Inr res"
  shows "cookieHeader (cookies res) \<noteq> None
     \<longleftrightarrow> authToken (cookies res) \<noteq> None \<and> ct0 (cookies res) \<noteq> None"
proof (cases "complete (preCascade h opts)")
  case True
  from complete_composeHeader [OF True] True assms show ?thesis
    by (auto simp: resolve_unfold)
next
  case False
  with assms have c: "cascade h opts (sourcesToTry opts) (preCascade h opts) [] = Inr res"
    by (simp add: resolve_unfold)
  from cascade_result [OF c] show ?thesis
  proof
    assume "\<exists>ws'. res = validation (preCascade h opts) ws'"
    then have r: "cookies res = preCascade h opts"
      using False by (auto simp: validation_def Let_def)
    from False preCascade_tokens [of h opts]
    have "\<not> (authToken (preCascade h opts) \<noteq> None \<and> ct0 (preCascade h opts) \<noteq> None)"
      by (auto simp: complete_def truthy_def split: option.splits)
    with r show ?thesis by (simp add: preCascade_header)
  next
    assume "\<exists>s \<in> set (sourcesToTry opts). \<exists>r. extractFrom h opts s = Inr r
        \<and> complete (cookies r) \<and> cookies res = cookies r"
    then obtain s r where r: "extractFrom h opts s = Inr r" "complete (cookies r)"
      "cookies res = cookies r" by blast
    from extractFrom_header [OF r(1,2)] r(2,3) show ?thesis
      by (auto simp: complete_def truthy_def split: option.splits)
  qed
qed


text \<open>
  C2, as stated, fails: Chrome holds \<^verbatim>\<open>auth_token\<close> and no \<^verbatim>\<open>ct0\<close>. The extractor returns a
  header although \<^verbatim>\<open>ct0\<close> is null, since it sets the header whenever the jar has a property.
\<close>

theorem header_without_both_tokens:
  "cookies (extractCookiesFromChrome authOnlyChromeHost None) =
     \<lparr>authToken = Some ''aaaa'', ct0 = None, cookieHeader = Some ''auth_token=aaaa'',
      source = Some ''Chrome default profile''\<rparr>"
  by code_simp

text \<open>
  C2, amended. For the \<^verbatim>\<open>cookies\<close> object of each extractor, the header is null when the
  jar of that source is empty and is otherwise the serialized jar (the pairs
  \<^verbatim>\<open>name=value\<close> sorted by name and joined by \<^verbatim>\<open>; \<close>); it is set as soon as one of the two
  tokens is. For the object \<^verbatim>\<open>resolveCredentials\<close> returns, the header is set if and only if
  both tokens are.
\<close>

theorem cookieHeader_of_extractors_and_resolver:
  "(cookieHeader (cookies (extractCookiesFromSafari h)) = headerOf h (safariJar h)
     \<and> (authToken (cookies (extractCookiesFromSafari h)) \<noteq> None
          \<or> ct0 (cookies (extractCookiesFromSafari h)) \<noteq> None
        \<longrightarrow> cookieHeader (cookies (extractCookiesFromSafari h)) \<noteq> None))
   \<and> (cookieHeader (cookies (extractCookiesFromChrome h p)) = headerOf h (chromeJar h p)
     \<and> (authToken (cookies (extractCookiesFromChrome h p)) \<noteq> None
          \<or> ct0 (cookies (extractCookiesFromChrome h p)) \<noteq> None
        \<longrightarrow> cookieHeader (cookies (extractCookiesFromChrome h p)) \<noteq> None))
   \<and> (extractCookiesFromFirefox h q = Inr r \<longrightarrow>
        cookieHeader (cookies r) = headerOf h (firefoxJar h q)
        \<and> (authToken (cookies r) \<noteq> None \<or> ct0 (cookies r) \<noteq> None
             \<longrightarrow> cookieHeader (cookies r) \<noteq> None))
   \<and> (resolveCredentials h opts = Inr res \<longrightarrow>
        (cookieHeader (cookies res) \<noteq> None
           \<longleftrightarrow> authToken (cookies res) \<noteq> None \<and> ct0 (cookies res) \<noteq> None))"
proof (intro conjI impI)
  show "cookieHeader (cookies (extractCookiesFromSafari h)) = headerOf h (safariJar h)"
    using safari_header [of h] by (rule conjunct1)
  show "cookieHeader (cookies (extractCookiesFromSafari h)) \<noteq> None"
    if "authToken (cookies (extractCookiesFromSafari h)) \<noteq> None
          \<or> ct0 (cookies (extractCookiesFromSafari h)) \<noteq> None"
    using safari_header [of h] that by blast
  show "cookieHeader (cookies (extractCookiesFromChrome h p)) = headerOf h (chromeJar h p)"
    using chrome_header [of h p] by (rule conjunct1)
  show "cookieHeader (cookies (extractCookiesFromChrome h p)) \<noteq> None"
    if "authToken (cookies (extractCookiesFromChrome h p)) \<noteq> None
          \<or> ct0 (cookies (extractCookiesFromChrome h p)) \<noteq> None"
    using chrome_header [of h p] that by blast
  show "cookieHeader (cookies r) = headerOf h (firefoxJar h q)"
    if "extractCookiesFromFirefox h q = Inr r"
    using firefox_header [OF that] by (rule conjunct1)
  show "cookieHeader (cookies r) \<noteq> None"
    if "extractCookiesFromFirefox h q = Inr r"
      and "authToken (cookies r) \<noteq> None \<or> ct0 (cookies r) \<noteq> None"
    using firefox_header [OF that(1)] that(2) by blast
  show "cookieHeader (cookies res) \<noteq> None
           \<longleftrightarrow> authToken (cookies res) \<noteq> None \<and> ct0 (cookies res) \<noteq> None"
    if "resolveCredentials h opts = Inr res"
    using that by (rule resolve_header)
qed

theorem cookieHeader_of_extractors_and_resolver_witness:
  "chromeJar authOnlyChromeHost None = [(''auth_token'', ''aaaa'')]
   \<and> cookieHeader (cookies (extractCookiesFromChrome authOnlyChromeHost None))
       = Some (serializeCookieJar authOnlyChromeHost [(''auth_token'', ''aaaa'')])
   \<and> serializeCookieJar authOnlyChromeHost [(''auth_token'', ''aaaa'')] = ''auth_token=aaaa''"
proof -
  have j: "chromeJar authOnlyChromeHost None = [(''auth_token'', ''aaaa'')]"
    by code_simp
  have s: "serializeCookieJar authOnlyChromeHost [(''auth_token'', ''aaaa'')]
      = ''auth_token=aaaa''"
    by code_simp
  from cookieHeader_of_extractors_and_resolver [of authOnlyChromeHost None]
  have "cookieHeader (cookies (extractCookiesFromChrome authOnlyChromeHost None))
      = headerOf authOnlyChromeHost (chromeJar authOnlyChromeHost None)"
    by blast
  then have "cookieHeader (cookies (extractCookiesFromChrome authOnlyChromeHost None))
       = Some (serializeCookieJar authOnlyChromeHost [(''auth_token'', ''aaaa'')])"
    unfolding j by (simp add: headerOf_def)
  with j s show ?thesis
    by (intro conjI)
qed

end
